theory Spec2Isabelle
  imports Complex_Main
begin

section \<open>Numbers, constants and helpers of core\_logic.py\<close>

text \<open>
  A Python float (and a SQLite REAL) is the rational number it stands for. Comparisons
  of floats are exact, and so they are here. The sums the mode classifier compares are
  rounded as the machine rounds them (\<open>fl\<close> below); the sums, differences and quotients
  of the summaries and the differences of wall-clock times are taken exactly. Timestamps (\<^verbatim>\<open>ts_utc_s\<close>) are integers, as
  in the source. The status of a row is the TEXT the source stores: \<^verbatim>\<open>"S"\<close>
  (standby), \<^verbatim>\<open>"H"\<close> (heating), \<^verbatim>\<open>"C"\<close> (cooling), \<^verbatim>\<open>"D"\<close> (defrost),
  \<^verbatim>\<open>"ON"\<close> and \<^verbatim>\<open>"OFF"\<close>.
\<close>

text \<open>
  \<^verbatim>\<open>round(x)\<close> to an integer, a tie going to the even neighbour.
\<close>

definition py_round :: "rat \<Rightarrow> int" where
  "py_round x =
     (let f = \<lfloor>x\<rfloor>; d = x - of_int f
      in if d < 1 / 2 then f
         else if 1 / 2 < d then f + 1
         else if even f then f else f + 1)"

text \<open>
  The double nearest to a rational, a tie going to the even significand (IEEE 754
  binary64, round to nearest): with \<open>2 ^ e \<le> |x| < 2 ^ (e + 1)\<close> the result is the
  multiple of \<open>2 ^ (e - 52)\<close> nearest to \<open>x\<close>. The exponent is not bounded: the values
  of this program (meter readings, thresholds and their sums) are far from the
  overflow and the subnormal range. A Python literal such as \<^verbatim>\<open>0.02\<close> is \<open>fl\<close> of the
  decimal, and the float sum \<^verbatim>\<open>a + b\<close> is \<open>fl (a + b)\<close>.
\<close>

function floor_log2 :: "int \<Rightarrow> int" where
  "floor_log2 n = (if n < 2 then 0 else 1 + floor_log2 (n div 2))"
  by pat_completeness auto
termination
  by (relation "measure nat") auto

declare floor_log2.simps [simp del]

definition pow2 :: "int \<Rightarrow> rat" where
  "pow2 k = (if 0 \<le> k then 2 ^ nat k else 1 / 2 ^ nat (- k))"

definition ilog2 :: "rat \<Rightarrow> int" where
  "ilog2 x =
     (let (p, q) = quotient_of x;
          k = floor_log2 p - floor_log2 q
      in if pow2 k \<le> x then k else k - 1)"

definition fl :: "rat \<Rightarrow> rat" where
  "fl x =
     (if x = 0 then 0
      else let e = ilog2 \<bar>x\<bar> - 52 in of_int (py_round (x / pow2 e)) * pow2 e)"

definition XSEC :: rat where "XSEC = 5"
definition ZSEC :: rat where "ZSEC = 10"
definition YSEC :: rat where "YSEC = 300"
definition HPWORK :: rat where "HPWORK = 300"
definition HPWORKMIN :: rat where "HPWORKMIN = 90"
definition HPFLOW :: rat where "HPFLOW = fl (2 / 10)"
definition HPDT :: rat where "HPDT = fl (2 / 100)"
definition HPAMB :: rat where "HPAMB = 20"

text \<open>
  \<^verbatim>\<open>round(float(v), 2)\<close>: the nearest multiple of 1/100, a tie going to the even
  neighbour.
\<close>

definition round2 :: "rat option \<Rightarrow> rat option" where
  "round2 v = (case v of None \<Rightarrow> None | Some x \<Rightarrow> Some (of_int (py_round (x * 100)) / 100))"

text \<open>
  Python's \<^verbatim>\<open>v or dflt\<close> on an optional number: \<^verbatim>\<open>None\<close> and zero are both
  falsy.
\<close>

definition or_else :: "rat option \<Rightarrow> rat \<Rightarrow> rat" where
  "or_else v dflt = (case v of None \<Rightarrow> dflt | Some x \<Rightarrow> if x = 0 then dflt else x)"

text \<open>
  \<^verbatim>\<open>self.last_logical_status or "S"\<close>: \<^verbatim>\<open>None\<close> and the empty string are
  falsy.
\<close>

definition last_or_S :: "string option \<Rightarrow> string" where
  "last_or_S prev = (case prev of None \<Rightarrow> ''S'' | Some s \<Rightarrow> if s = [] then ''S'' else s)"

section \<open>The live snapshot and the mode classifier\<close>

text \<open>
  A snapshot is the dictionary \<^verbatim>\<open>STORE.snapshot()\<close> returns, as the list of its
  items; \<open>get d name\<close> is \<^verbatim>\<open>d.get(name)\<close>, and the empty dictionary is \<open>[]\<close>. Its
  values are floats: a reading such as 30.1 is \<open>fl (301 / 10)\<close>.
\<close>

type_synonym snapshot = "(string \<times> rat) list"

definition get :: "snapshot \<Rightarrow> string \<Rightarrow> rat option" where
  "get d name = map_of d name"

definition em_p :: "snapshot \<Rightarrow> rat" where
  "em_p d = or_else (get d ''em_activepower'') 0"

definition flow :: "snapshot \<Rightarrow> rat" where
  "flow d = or_else (get d ''hm_activeflow_m3h'') (or_else (get d ''hm_flow_m3h'') 0)"

definition compute_logical_status :: "string option \<Rightarrow> snapshot \<Rightarrow> string" where
  "compute_logical_status last_logical_status d =
     (let t_in = get d ''hm_temp_IN''; t_out = get d ''hm_temp_OUT'';
          amb = get d ''ts_ambient_temp''
      in if HPWORK < em_p d \<and> 0 < flow d then
           (case (t_in, t_out) of
              (Some ti, Some tout) \<Rightarrow>
                if fl (tout + HPDT) < ti then ''H''
                else if fl (ti + HPDT) < tout then
                  (case amb of
                     Some a \<Rightarrow> if a < HPAMB then ''D'' else ''C''
                   | None \<Rightarrow> ''C'')
                else last_or_S last_logical_status
            | _ \<Rightarrow> last_or_S last_logical_status)
         else if HPWORKMIN < em_p d \<and> HPFLOW < flow d then last_or_S last_logical_status
         else ''S'')"

text \<open>The reference snapshots of the specification.\<close>

definition ref_snapshot :: "rat \<Rightarrow> rat \<Rightarrow> rat \<Rightarrow> rat \<Rightarrow> rat \<Rightarrow> snapshot" where
  "ref_snapshot p f t_in t_out amb =
     [(''em_activepower'', p), (''hm_activeflow_m3h'', f), (''hm_flow_m3h'', f),
      (''hm_temp_IN'', t_in), (''hm_temp_OUT'', t_out), (''ts_ambient_temp'', amb)]"

section \<open>The tables\<close>

text \<open>
  One record per table of \<^verbatim>\<open>setup_db\<close>, with the column names of the schema. A
  column that several tables share is declared once, in a record the tables extend:
  \<open>status\<close> and the two ambient columns are in all five tables, the aggregate columns
  in the four summary tables. A nullable REAL column is a \<open>rat option\<close>, \<open>None\<close>
  being NULL. A table is the list of its rows in insertion order.
\<close>

record base_row =
  status :: string
  ts_ambient_temp :: "rat option"
  ts_ambient_humidity :: "rat option"

record sample = base_row +
  ts_utc_s :: int
  em_activepower :: "rat option"
  em_total_fwd :: "rat option"
  hm_activepower :: "rat option"
  hm_positive_kwh :: "rat option"
  hm_negative_kwh :: "rat option"
  hm_temp_IN :: "rat option"
  hm_temp_OUT :: "rat option"
  hm_temp_diff :: "rat option"
  hm_activeflow_m3h :: "rat option"
  hm_totalflow :: "rat option"
  hm_fault_code :: "rat option"
  hm_work_h :: "rat option"

record agg_row = base_row +
  total_time_s :: int
  consumption_kw :: "rat option"
  positive_kw :: "rat option"
  negative_kw :: "rat option"
  hp_temp_in :: "rat option"
  hp_temp_out :: "rat option"
  hp_temp_diff :: "rat option"
  hp_activeflow_m3h :: "rat option"
  hp_totalflow :: "rat option"

text \<open>
  A local calendar day (\<^verbatim>\<open>day_local\<close>, and the text \<^verbatim>\<open>'YYYY-MM-DD'\<close> that names
  it in \<^verbatim>\<open>day_summary\<close>) is the number of the day, counted from 1970-01-01.
\<close>

type_synonym date = int

record day_row = agg_row +
  day_date :: date
  day_start_utc_s :: int
  start_ts_utc_s :: int
  end_ts_utc_s :: int

record year_key = agg_row +
  year :: int

record total_row = year_key +
  times_a_year :: int

record month_key = year_key +
  month :: int

record year_row = month_key +
  times_a_month :: int

record month_row = month_key +
  day :: int
  times_a_day :: int

record db =
  hp_samples :: "sample list"
  day_summary :: "day_row list"
  month_summary :: "month_row list"
  year_summary :: "year_row list"
  total_summary :: "total_row list"

text \<open>
  \<^verbatim>\<open>INSERT OR REPLACE\<close>: a row with the same primary key is removed, the new row
  is added.
\<close>

definition insert_or_replace :: "('r \<Rightarrow> 'k) \<Rightarrow> 'r \<Rightarrow> 'r list \<Rightarrow> 'r list" where
  "insert_or_replace pk r tbl = filter (\<lambda>x. pk x \<noteq> pk r) tbl @ [r]"

definition day_pk :: "day_row \<Rightarrow> date \<times> string \<times> int" where
  "day_pk r = (day_date r, status r, start_ts_utc_s r)"

definition month_pk :: "month_row \<Rightarrow> int \<times> int \<times> int \<times> string" where
  "month_pk r = (year r, month r, day r, status r)"

definition year_pk :: "year_row \<Rightarrow> int \<times> int \<times> string" where
  "year_pk r = (year r, month r, status r)"

definition total_pk :: "total_row \<Rightarrow> int \<times> string" where
  "total_pk r = (year r, status r)"

text \<open>
  The site's calendar, which the source takes from \<^verbatim>\<open>zoneinfo\<close> and
  \<^verbatim>\<open>datetime\<close>: the local day of a UTC second, the UTC second of a local day's
  00:00:00, and the year, month and day of the month of a local day.
\<close>

record calendar =
  local_day :: "int \<Rightarrow> date"
  local_midnight :: "date \<Rightarrow> int"
  year_of :: "date \<Rightarrow> int"
  month_of :: "date \<Rightarrow> int"
  day_of :: "date \<Rightarrow> int"

section \<open>Writing a sample\<close>

definition sample_row :: "snapshot \<Rightarrow> string \<Rightarrow> int \<Rightarrow> sample" where
  "sample_row d st ts =
     (let g = (\<lambda>name. round2 (get d name))
      in \<lparr>status = st,
          ts_ambient_temp = g ''ts_ambient_temp'',
          ts_ambient_humidity = g ''ts_ambient_humidity'',
          ts_utc_s = ts,
          em_activepower = g ''em_activepower'',
          em_total_fwd = g ''em_total_fwd'',
          hm_activepower = g ''hm_activepower'',
          hm_positive_kwh = g ''hm_positive_kwh'',
          hm_negative_kwh = g ''hm_negative_kwh'',
          hm_temp_IN = g ''hm_temp_IN'',
          hm_temp_OUT = g ''hm_temp_OUT'',
          hm_temp_diff = g ''hm_temp_diff'',
          hm_activeflow_m3h = g ''hm_activeflow_m3h'',
          hm_totalflow = g ''hm_totalflow'',
          hm_fault_code = get d ''hm_fault_code'',
          hm_work_h = get d ''hm_work_h''\<rparr>)"

definition insert_sample :: "snapshot \<Rightarrow> string \<Rightarrow> int \<Rightarrow> sample list \<Rightarrow> sample list" where
  "insert_sample d st ts tbl = insert_or_replace ts_utc_s (sample_row d st ts) tbl"

text \<open>
  \<^verbatim>\<open>SELECT ts_utc_s ... WHERE status NOT IN ('ON','OFF') ORDER BY ts_utc_s DESC LIMIT 1\<close>,
  with the bound \<^verbatim>\<open>ts_utc_s < ?\<close> of \<^verbatim>\<open>build_day_summary_for_date\<close> as an
  optional argument.
\<close>

fun max_ts :: "int list \<Rightarrow> int option" where
  "max_ts [] = None"
| "max_ts (t # ts) = (case max_ts ts of None \<Rightarrow> Some t | Some m \<Rightarrow> Some (max t m))"

definition boundary :: "string \<Rightarrow> bool" where
  "boundary st = (st = ''ON'' \<or> st = ''OFF'')"

definition last_non_boundary :: "int option \<Rightarrow> sample list \<Rightarrow> int option" where
  "last_non_boundary bound tbl =
     max_ts (map ts_utc_s (filter (\<lambda>r. \<not> boundary (status r) \<and>
        (case bound of None \<Rightarrow> True | Some b \<Rightarrow> ts_utc_s r < b)) tbl))"

section \<open>The day summary\<close>

text \<open>
  The rows \<^verbatim>\<open>build_day_summary_for_date\<close> loads: the samples with
  \<^verbatim>\<open>ts_utc_s >= start_utc_s AND ts_utc_s <= end_utc_s\<close>, by ascending time.
\<close>

definition day_rows :: "int \<Rightarrow> int \<Rightarrow> sample list \<Rightarrow> sample list" where
  "day_rows start_utc_s end_utc_s tbl =
     sort_key ts_utc_s (filter (\<lambda>r. start_utc_s \<le> ts_utc_s r \<and> ts_utc_s r \<le> end_utc_s) tbl)"

text \<open>Step 1: one row per \<^verbatim>\<open>"ON"\<close> sample, of duration 0.\<close>

definition on_row :: "date \<Rightarrow> int \<Rightarrow> sample list \<Rightarrow> sample \<Rightarrow> day_row" where
  "on_row day_str start_utc_s tbl r =
     (let ts = ts_utc_s r;
          start_ts = (case last_non_boundary (Some ts) tbl of Some p \<Rightarrow> p | None \<Rightarrow> ts)
      in \<lparr>status = ''ON'',
          ts_ambient_temp = round2 (ts_ambient_temp r),
          ts_ambient_humidity = round2 (ts_ambient_humidity r),
          total_time_s = 0,
          consumption_kw = None, positive_kw = None, negative_kw = None,
          hp_temp_in = round2 (hm_temp_IN r),
          hp_temp_out = round2 (hm_temp_OUT r),
          hp_temp_diff = round2 (hm_temp_diff r),
          hp_activeflow_m3h = round2 (hm_activeflow_m3h r),
          hp_totalflow = round2 (hm_totalflow r),
          day_date = day_str, day_start_utc_s = start_utc_s,
          start_ts_utc_s = start_ts, end_ts_utc_s = ts\<rparr>)"

definition on_rows :: "date \<Rightarrow> int \<Rightarrow> sample list \<Rightarrow> sample list \<Rightarrow> day_row list" where
  "on_rows day_str start_utc_s tbl rows =
     map (on_row day_str start_utc_s tbl) (filter (\<lambda>r. status r = ''ON'') rows)"

text \<open>
  Step 2, \<^verbatim>\<open>_store_day_segment\<close>: the row stored for \<^verbatim>\<open>rows[i_start]\<close> to
  \<^verbatim>\<open>rows[i_end]\<close>, or nothing. The result is the list of the rows it inserts (none
  or one). An index past the end of \<^verbatim>\<open>rows\<close> raises in Python; the loop below
  passes none, and the model stores nothing there.
\<close>

definition allowed_status :: "string set" where
  "allowed_status = {''S'', ''H'', ''C'', ''D''}"

definition delta :: "rat option \<Rightarrow> rat option \<Rightarrow> rat option" where
  "delta v_end v_start =
     (case (v_end, v_start) of (Some e, Some s) \<Rightarrow> Some (e - s) | _ \<Rightarrow> None)"

definition avg :: "(sample \<Rightarrow> rat option) \<Rightarrow> string \<Rightarrow> sample list \<Rightarrow> rat option" where
  "avg col st seg =
     (let vals = List.map_filter (\<lambda>r. if status r = st then col r else None) seg
      in if vals = [] then None else round2 (Some (sum_list vals / of_nat (length vals))))"

definition store_day_segment ::
    "date \<Rightarrow> int \<Rightarrow> sample list \<Rightarrow> nat \<Rightarrow> nat \<Rightarrow> day_row list" where
  "store_day_segment day_str start_utc_s rows i_start i_end =
     (if i_end \<le> i_start \<or> length rows \<le> i_end then []
      else
        let first = rows ! i_start; final = rows ! i_end;
            ts_start = ts_utc_s first; st = status first; ts_end = ts_utc_s final
        in if st \<notin> allowed_status then []
           else if ts_end \<le> ts_start then []
           else
             let seg = take (i_end + 1 - i_start) (drop i_start rows)
             in [\<lparr>status = st,
                  ts_ambient_temp = avg ts_ambient_temp st seg,
                  ts_ambient_humidity = avg ts_ambient_humidity st seg,
                  total_time_s = ts_end - ts_start,
                  consumption_kw = round2 (delta (em_total_fwd final) (em_total_fwd first)),
                  positive_kw = round2 (delta (hm_positive_kwh final) (hm_positive_kwh first)),
                  negative_kw = round2 (delta (hm_negative_kwh final) (hm_negative_kwh first)),
                  hp_temp_in = avg hm_temp_IN st seg,
                  hp_temp_out = avg hm_temp_OUT st seg,
                  hp_temp_diff = avg hm_temp_diff st seg,
                  hp_activeflow_m3h = avg hm_activeflow_m3h st seg,
                  hp_totalflow = round2 (delta (hm_totalflow final) (hm_totalflow first)),
                  day_date = day_str, day_start_utc_s = start_utc_s,
                  start_ts_utc_s = ts_start, end_ts_utc_s = ts_end\<rparr>])"

text \<open>
  The loop \<^verbatim>\<open>for i, r in enumerate(rows)\<close> of step 2: \<open>i\<close> is the index of the
  head of the rows still to read, \<open>seg\<close> is \<^verbatim>\<open>segment_start_idx\<close> with
  \<^verbatim>\<open>segment_status\<close> (set and cleared together in the source). A segment is open
  only at an index below \<open>i\<close>, so \<open>i - 1\<close> is never taken at \<open>i = 0\<close>. After the
  loop the open segment is stored up to \<^verbatim>\<open>len(rows) - 1\<close>.
\<close>

fun segment_loop ::
    "date \<Rightarrow> int \<Rightarrow> sample list \<Rightarrow> nat \<Rightarrow> sample list \<Rightarrow> (nat \<times> string) option \<Rightarrow> day_row list" where
  "segment_loop day_str start_utc_s rows i [] seg =
     (case seg of
        None \<Rightarrow> []
      | Some (segment_start_idx, segment_status) \<Rightarrow>
          store_day_segment day_str start_utc_s rows segment_start_idx (length rows - 1))"
| "segment_loop day_str start_utc_s rows i (r # rest) seg =
     (let st = status r
      in if st \<notin> allowed_status then
           (case seg of
              Some (segment_start_idx, segment_status) \<Rightarrow>
                store_day_segment day_str start_utc_s rows segment_start_idx (i - 1)
                  @ segment_loop day_str start_utc_s rows (i + 1) rest None
            | None \<Rightarrow> segment_loop day_str start_utc_s rows (i + 1) rest None)
         else
           (case seg of
              None \<Rightarrow> segment_loop day_str start_utc_s rows (i + 1) rest (Some (i, st))
            | Some (segment_start_idx, segment_status) \<Rightarrow>
                if st \<noteq> segment_status then
                  store_day_segment day_str start_utc_s rows segment_start_idx (i - 1)
                    @ segment_loop day_str start_utc_s rows (i + 1) rest (Some (i, st))
                else segment_loop day_str start_utc_s rows (i + 1) rest seg))"

definition day_segments :: "date \<Rightarrow> int \<Rightarrow> sample list \<Rightarrow> day_row list" where
  "day_segments day_str start_utc_s rows = segment_loop day_str start_utc_s rows 0 rows None"

text \<open>
  Step 3: the \<^verbatim>\<open>"OFF"\<close> rows of the day, from \<^verbatim>\<open>self.offline_segments\<close>, a
  dictionary from the day to its list of intervals (here an association list).
\<close>

type_synonym offline = "(date \<times> (int \<times> int) list) list"

definition off_row :: "date \<Rightarrow> int \<Rightarrow> int \<Rightarrow> int \<Rightarrow> day_row" where
  "off_row day_str start_utc_s s e =
     \<lparr>status = ''OFF'', ts_ambient_temp = None, ts_ambient_humidity = None,
      total_time_s = e - s,
      consumption_kw = None, positive_kw = None, negative_kw = None,
      hp_temp_in = None, hp_temp_out = None, hp_temp_diff = None,
      hp_activeflow_m3h = None, hp_totalflow = None,
      day_date = day_str, day_start_utc_s = start_utc_s,
      start_ts_utc_s = s, end_ts_utc_s = e\<rparr>"

fun off_rows :: "date \<Rightarrow> int \<Rightarrow> int \<Rightarrow> (int \<times> int) list \<Rightarrow> day_row list" where
  "off_rows day_str start_utc_s end_utc_s [] = []"
| "off_rows day_str start_utc_s end_utc_s ((seg_start, seg_end) # off_list) =
     (if seg_end \<le> seg_start then off_rows day_str start_utc_s end_utc_s off_list
      else
        let s = max seg_start start_utc_s; e = min seg_end end_utc_s
        in if e \<le> s then off_rows day_str start_utc_s end_utc_s off_list
           else off_row day_str start_utc_s s e # off_rows day_str start_utc_s end_utc_s off_list)"

definition offline_get :: "offline \<Rightarrow> date \<Rightarrow> (int \<times> int) list" where
  "offline_get offline_segments day_str =
     (case map_of offline_segments day_str of None \<Rightarrow> [] | Some off_list \<Rightarrow> off_list)"

text \<open>
  The rows \<^verbatim>\<open>build_day_summary_for_date\<close> inserts, in the order it inserts them;
  the function deletes the day's rows and inserts these with
  \<^verbatim>\<open>INSERT OR REPLACE\<close>.
\<close>

definition built_rows :: "calendar \<Rightarrow> offline \<Rightarrow> date \<Rightarrow> sample list \<Rightarrow> day_row list" where
  "built_rows cal offline_segments day_local tbl =
     (let start_utc_s = local_midnight cal day_local;
          end_utc_s = local_midnight cal (day_local + 1);
          rows = day_rows start_utc_s end_utc_s tbl
      in on_rows day_local start_utc_s tbl rows
         @ day_segments day_local start_utc_s rows
         @ off_rows day_local start_utc_s end_utc_s (offline_get offline_segments day_local))"

definition build_day_summary_for_date :: "calendar \<Rightarrow> offline \<Rightarrow> date \<Rightarrow> db \<Rightarrow> db" where
  "build_day_summary_for_date cal offline_segments day_local d =
     d\<lparr>day_summary :=
         fold (insert_or_replace day_pk)
           (built_rows cal offline_segments day_local (hp_samples d))
           (filter (\<lambda>r. day_date r \<noteq> day_local) (day_summary d))\<rparr>"

section \<open>Month, year and total summaries\<close>

text \<open>
  The SQL aggregates of \<^verbatim>\<open>update_month_year_total_for_day\<close>. \<^verbatim>\<open>SUM\<close> skips
  NULL and is NULL when no value is left; a product with a NULL factor is NULL. The
  columns \<^verbatim>\<open>total_time_s\<close> and \<^verbatim>\<open>times_a_*\<close> are never NULL: every insert of
  the source gives them an integer.
\<close>

definition sql_sum :: "rat option list \<Rightarrow> rat option" where
  "sql_sum vs =
     (let xs = List.map_filter (\<lambda>v. v) vs in if xs = [] then None else Some (sum_list xs))"

definition sql_sum_int :: "int list \<Rightarrow> int option" where
  "sql_sum_int xs = (if xs = [] then None else Some (sum_list xs))"

definition weighted_sum ::
    "('a agg_row_scheme \<Rightarrow> rat option) \<Rightarrow> 'a agg_row_scheme list \<Rightarrow> rat option" where
  "weighted_sum col g =
     sql_sum (map (\<lambda>r. case col r of None \<Rightarrow> None | Some v \<Rightarrow> Some (v * of_int (total_time_s r))) g)"

definition wavg :: "rat option \<Rightarrow> int option \<Rightarrow> rat option" where
  "wavg weighted total_t =
     (case (weighted, total_t) of
        (Some w, Some t) \<Rightarrow> if t \<noteq> 0 \<and> 0 < t then round2 (Some (w / of_int t)) else None
      | _ \<Rightarrow> None)"

text \<open>\<^verbatim>\<open>int(x) if x else 0\<close>.\<close>

definition int_or_0 :: "int option \<Rightarrow> int" where
  "int_or_0 v = (case v of None \<Rightarrow> 0 | Some x \<Rightarrow> if x = 0 then 0 else x)"

text \<open>
  \<^verbatim>\<open>GROUP BY status\<close>: one group per status among the rows. SQL leaves the order of
  the groups open; here it is the order of first occurrence.
\<close>

definition group_by_status ::
    "'a base_row_scheme list \<Rightarrow> (string \<times> 'a base_row_scheme list) list" where
  "group_by_status rows =
     map (\<lambda>st. (st, filter (\<lambda>r. status r = st) rows)) (remdups (map status rows))"

definition month_row_of :: "int \<Rightarrow> int \<Rightarrow> int \<Rightarrow> string \<times> day_row list \<Rightarrow> month_row" where
  "month_row_of y m dd = (\<lambda>(st, g).
     let cnt = int (length g);
         t_sum = sql_sum_int (map total_time_s g);
         t_weight = sql_sum_int (map total_time_s g);
         n = int_or_0 (Some cnt)
     in if st = ''ON'' then
          \<lparr>status = st, ts_ambient_temp = None, ts_ambient_humidity = None,
           total_time_s = 0,
           consumption_kw = None, positive_kw = None, negative_kw = None,
           hp_temp_in = None, hp_temp_out = None, hp_temp_diff = None,
           hp_activeflow_m3h = None, hp_totalflow = None,
           year = y, month = m, day = dd, times_a_day = n\<rparr>
        else
          \<lparr>status = st,
           ts_ambient_temp = wavg (weighted_sum ts_ambient_temp g) t_weight,
           ts_ambient_humidity = wavg (weighted_sum ts_ambient_humidity g) t_weight,
           total_time_s = int_or_0 t_sum,
           consumption_kw = round2 (sql_sum (map consumption_kw g)),
           positive_kw = round2 (sql_sum (map positive_kw g)),
           negative_kw = round2 (sql_sum (map negative_kw g)),
           hp_temp_in = wavg (weighted_sum hp_temp_in g) t_weight,
           hp_temp_out = wavg (weighted_sum hp_temp_out g) t_weight,
           hp_temp_diff = wavg (weighted_sum hp_temp_diff g) t_weight,
           hp_activeflow_m3h = wavg (weighted_sum hp_activeflow_m3h g) t_weight,
           hp_totalflow = round2 (sql_sum (map hp_totalflow g)),
           year = y, month = m, day = dd, times_a_day = n\<rparr>)"

definition year_row_of :: "int \<Rightarrow> int \<Rightarrow> string \<times> month_row list \<Rightarrow> year_row" where
  "year_row_of y m = (\<lambda>(st, g).
     let t_sum = sql_sum_int (map total_time_s g);
         t_weight = sql_sum_int (map total_time_s g);
         n = int_or_0 (sql_sum_int (map times_a_day g))
     in if st = ''ON'' then
          \<lparr>status = st, ts_ambient_temp = None, ts_ambient_humidity = None,
           total_time_s = 0,
           consumption_kw = None, positive_kw = None, negative_kw = None,
           hp_temp_in = None, hp_temp_out = None, hp_temp_diff = None,
           hp_activeflow_m3h = None, hp_totalflow = None,
           year = y, month = m, times_a_month = n\<rparr>
        else
          \<lparr>status = st,
           ts_ambient_temp = wavg (weighted_sum ts_ambient_temp g) t_weight,
           ts_ambient_humidity = wavg (weighted_sum ts_ambient_humidity g) t_weight,
           total_time_s = int_or_0 t_sum,
           consumption_kw = round2 (sql_sum (map consumption_kw g)),
           positive_kw = round2 (sql_sum (map positive_kw g)),
           negative_kw = round2 (sql_sum (map negative_kw g)),
           hp_temp_in = wavg (weighted_sum hp_temp_in g) t_weight,
           hp_temp_out = wavg (weighted_sum hp_temp_out g) t_weight,
           hp_temp_diff = wavg (weighted_sum hp_temp_diff g) t_weight,
           hp_activeflow_m3h = wavg (weighted_sum hp_activeflow_m3h g) t_weight,
           hp_totalflow = round2 (sql_sum (map hp_totalflow g)),
           year = y, month = m, times_a_month = n\<rparr>)"

definition total_row_of :: "int \<Rightarrow> string \<times> year_row list \<Rightarrow> total_row" where
  "total_row_of y = (\<lambda>(st, g).
     let t_sum = sql_sum_int (map total_time_s g);
         t_weight = sql_sum_int (map total_time_s g);
         n = int_or_0 (sql_sum_int (map times_a_month g))
     in if st = ''ON'' then
          \<lparr>status = st, ts_ambient_temp = None, ts_ambient_humidity = None,
           total_time_s = 0,
           consumption_kw = None, positive_kw = None, negative_kw = None,
           hp_temp_in = None, hp_temp_out = None, hp_temp_diff = None,
           hp_activeflow_m3h = None, hp_totalflow = None,
           year = y, times_a_year = n\<rparr>
        else
          \<lparr>status = st,
           ts_ambient_temp = wavg (weighted_sum ts_ambient_temp g) t_weight,
           ts_ambient_humidity = wavg (weighted_sum ts_ambient_humidity g) t_weight,
           total_time_s = int_or_0 t_sum,
           consumption_kw = round2 (sql_sum (map consumption_kw g)),
           positive_kw = round2 (sql_sum (map positive_kw g)),
           negative_kw = round2 (sql_sum (map negative_kw g)),
           hp_temp_in = wavg (weighted_sum hp_temp_in g) t_weight,
           hp_temp_out = wavg (weighted_sum hp_temp_out g) t_weight,
           hp_temp_diff = wavg (weighted_sum hp_temp_diff g) t_weight,
           hp_activeflow_m3h = wavg (weighted_sum hp_activeflow_m3h g) t_weight,
           hp_totalflow = round2 (sql_sum (map hp_totalflow g)),
           year = y, times_a_year = n\<rparr>)"

text \<open>
  The three steps of \<^verbatim>\<open>update_month_year_total_for_day\<close>, each a
  \<^verbatim>\<open>DELETE\<close>, a grouped \<^verbatim>\<open>SELECT\<close> on the table below and one
  \<^verbatim>\<open>INSERT OR REPLACE\<close> per group.
\<close>

definition update_month :: "int \<Rightarrow> int \<Rightarrow> int \<Rightarrow> day_row list \<Rightarrow> month_row list \<Rightarrow> month_row list" where
  "update_month y m dd day_rows_of_day tbl =
     fold (insert_or_replace month_pk)
       (map (month_row_of y m dd) (group_by_status day_rows_of_day))
       (filter (\<lambda>r. \<not> (year r = y \<and> month r = m \<and> day r = dd)) tbl)"

definition update_year :: "int \<Rightarrow> int \<Rightarrow> month_row list \<Rightarrow> year_row list \<Rightarrow> year_row list" where
  "update_year y m month_tbl tbl =
     fold (insert_or_replace year_pk)
       (map (year_row_of y m)
          (group_by_status (filter (\<lambda>r. year r = y \<and> month r = m) month_tbl)))
       (filter (\<lambda>r. \<not> (year r = y \<and> month r = m)) tbl)"

definition update_total :: "int \<Rightarrow> year_row list \<Rightarrow> total_row list \<Rightarrow> total_row list" where
  "update_total y year_tbl tbl =
     fold (insert_or_replace total_pk)
       (map (total_row_of y) (group_by_status (filter (\<lambda>r. year r = y) year_tbl)))
       (filter (\<lambda>r. year r \<noteq> y) tbl)"

definition update_month_year_total_for_day :: "calendar \<Rightarrow> date \<Rightarrow> db \<Rightarrow> db" where
  "update_month_year_total_for_day cal day_local d =
     (let y = year_of cal day_local; m = month_of cal day_local; dd = day_of cal day_local;
          month_tbl = update_month y m dd
                        (filter (\<lambda>r. day_date r = day_local) (day_summary d)) (month_summary d);
          year_tbl = update_year y m month_tbl (year_summary d);
          total_tbl = update_total y year_tbl (total_summary d)
      in d\<lparr>month_summary := month_tbl, year_summary := year_tbl, total_summary := total_tbl\<rparr>)"

section \<open>The offline gap\<close>





section \<open>The main loop\<close>

text \<open>The fields of \<^verbatim>\<open>DBWriterSQLite\<close> that live across iterations.\<close>

record engine =
  first_saved :: bool
  last_logical_status :: "string option"
  last_status_stored :: "string option"
  last_save_time :: rat
  current_day_local :: date
  last_read_data :: "snapshot option"
  last_read_ts_utc_s :: "int option"
  offline_segments :: offline


text \<open>
  \<^verbatim>\<open>build_day_summary_for_date\<close> followed by
  \<^verbatim>\<open>update_month_year_total_for_day\<close>, as the loop always calls them.
\<close>

definition rebuild :: "calendar \<Rightarrow> offline \<Rightarrow> date \<Rightarrow> db \<Rightarrow> db" where
  "rebuild cal offs day_local d =
     update_month_year_total_for_day cal day_local
       (build_day_summary_for_date cal offs day_local d)"

definition status_to_store :: "engine \<Rightarrow> string \<Rightarrow> string" where
  "status_to_store st logical_status = (if \<not> first_saved st then ''ON'' else logical_status)"

definition pending_offline :: "engine \<Rightarrow> int \<Rightarrow> sample list \<Rightarrow> (int \<times> int) option" where
  "pending_offline st ts_now_utc_s tbl =
     (if \<not> first_saved st then
        (case last_non_boundary None tbl of
           Some offline_start_ts \<Rightarrow>
             if offline_start_ts < ts_now_utc_s then Some (offline_start_ts, ts_now_utc_s)
             else None
         | None \<Rightarrow> None)
      else None)"

definition status_changed :: "engine \<Rightarrow> string \<Rightarrow> bool" where
  "status_changed st s =
     (case last_status_stored st of None \<Rightarrow> False | Some prev_status_stored \<Rightarrow> s \<noteq> prev_status_stored)"

definition should_write :: "engine \<Rightarrow> string \<Rightarrow> rat \<Rightarrow> bool" where
  "should_write st s now_t =
     (if \<not> first_saved st then True
      else if status_changed st s then True
      else
        let interval_needed = (if s = ''S'' then YSEC else ZSEC)
        in interval_needed \<le> now_t - last_save_time st)"

text \<open>The bridge from standby: the samples table after the optional extra insert.\<close>

definition bridge :: "engine \<Rightarrow> string \<Rightarrow> rat \<Rightarrow> sample list \<Rightarrow> sample list" where
  "bridge st s now_t tbl =
     (if first_saved st \<and> status_changed st s \<and> last_status_stored st = Some ''S'' \<and> s \<noteq> ''S''
      then
        let dt_since_last_write = now_t - last_save_time st
        in (case (last_read_data st, last_read_ts_utc_s st) of
              (Some data, Some ts) \<Rightarrow>
                if XSEC < dt_since_last_write then insert_sample data ''S'' ts tbl else tbl
            | _ \<Rightarrow> tbl)
      else tbl)"


text \<open>
  A calendar to evaluate with: Eastern European Time without daylight saving (two hours
  ahead of UTC) and the Gregorian date of a day counted from 1970-01-01.
\<close>

definition gregorian :: "int \<Rightarrow> int \<times> int \<times> int" where
  "gregorian n =
     (let z = n + 719468;
          era = z div 146097;
          doe = z - era * 146097;
          yoe = (doe - doe div 1460 + doe div 36524 - doe div 146096) div 365;
          doy = doe - (365 * yoe + yoe div 4 - yoe div 100);
          mp = (5 * doy + 2) div 153;
          dd = doy - (153 * mp + 2) div 5 + 1;
          m = (if mp < 10 then mp + 3 else mp - 9);
          y = yoe + era * 400 + (if m \<le> 2 then 1 else 0)
      in (y, m, dd))"

definition eet :: calendar where
  "eet = \<lparr>local_day = (\<lambda>ts. (ts + 7200) div 86400),
          local_midnight = (\<lambda>dy. dy * 86400 - 7200),
          year_of = (\<lambda>dy. fst (gregorian dy)),
          month_of = (\<lambda>dy. fst (snd (gregorian dy))),
          day_of = (\<lambda>dy. snd (snd (gregorian dy)))\<rparr>"

definition empty_db :: db where
  "empty_db = \<lparr>hp_samples = [], day_summary = [], month_summary = [],
               year_summary = [], total_summary = []\<rparr>"

section \<open>Notions used in the proofs\<close>

text \<open>
  The segment of a run of rows taken by itself, and the loop of step 2 told on lists: \<open>cur\<close>
  is the run that is open, \<open>[]\<close> when none is. Lemma \<open>day_segments_seg_list\<close> shows that
  the loop on indices computes exactly this.
\<close>

definition seg_of :: "date \<Rightarrow> int \<Rightarrow> sample list \<Rightarrow> day_row list" where
  "seg_of ds su run = store_day_segment ds su run 0 (length run - 1)"

fun seg_list :: "date \<Rightarrow> int \<Rightarrow> sample list \<Rightarrow> sample list \<Rightarrow> day_row list" where
  "seg_list ds su cur [] = seg_of ds su cur"
| "seg_list ds su cur (r # rest) =
     (if status r \<notin> allowed_status then seg_of ds su cur @ seg_list ds su [] rest
      else if cur = [] then seg_list ds su [r] rest
      else if status r \<noteq> status (hd cur) then seg_of ds su cur @ seg_list ds su [r] rest
      else seg_list ds su (cur @ [r]) rest)"

text \<open>
  A day of samples as the main loop writes them: standby every 300 s, the bridging
  standby sample 5 s before heating starts, heating every 10 s, standby again. The
  electricity meter reading is the only field set.
\<close>

definition example_day :: "sample list" where
  "example_day =
     [sample_row [(''em_total_fwd'', 100)] ''S'' 0,
      sample_row [(''em_total_fwd'', 101)] ''S'' 300,
      sample_row [(''em_total_fwd'', 102)] ''S'' 450,
      sample_row [(''em_total_fwd'', 103)] ''H'' 455,
      sample_row [(''em_total_fwd'', 105)] ''H'' 465,
      sample_row [(''em_total_fwd'', 107)] ''H'' 475,
      sample_row [(''em_total_fwd'', 108)] ''S'' 480,
      sample_row [(''em_total_fwd'', 109)] ''S'' 780]"

definition example_db :: db where
  "example_db = empty_db\<lparr>hp_samples := example_day\<rparr>"

text \<open>
  A day in which the ambient sensor has not been read yet during the first heating run:
  heating for 10 s without ambient temperature, a standby sample, heating for 10 s at an
  ambient temperature of 10.
\<close>

definition null_ambient_db :: db where
  "null_ambient_db = empty_db\<lparr>hp_samples :=
     [sample_row [] ''H'' 0,
      sample_row [] ''H'' 10,
      sample_row [(''ts_ambient_temp'', 10)] ''S'' 15,
      sample_row [(''ts_ambient_temp'', 10)] ''H'' 20,
      sample_row [(''ts_ambient_temp'', 10)] ''H'' 30]\<rparr>"

text \<open>
  Two days of January 1970, each beginning with a restart; the first day has been rolled
  up, the second has been rebuilt and is about to be rolled up.
\<close>

definition two_day_db :: db where
  "two_day_db =
     build_day_summary_for_date eet [] 1
       (update_month_year_total_for_day eet 0
          (build_day_summary_for_date eet [] 0
             (empty_db\<lparr>hp_samples :=
                [sample_row [] ''ON'' 0, sample_row [] ''S'' 5, sample_row [] ''S'' 305,
                 sample_row [] ''H'' 310, sample_row [] ''H'' 320,
                 sample_row [] ''ON'' 90000, sample_row [] ''S'' 90005,
                 sample_row [] ''S'' 90105]\<rparr>)))"

text \<open>
  The state and the tables once the loop has dealt with a change of day, where it goes
  on to classify and to decide.
\<close>

definition rolled :: "calendar \<Rightarrow> int \<Rightarrow> engine \<times> db \<Rightarrow> engine \<times> db" where
  "rolled cal ts_now_utc_s = (\<lambda>(st, d).
     if local_day cal ts_now_utc_s \<noteq> current_day_local st
     then (st\<lparr>current_day_local := local_day cal ts_now_utc_s\<rparr>,
           rebuild cal (offline_segments st) (current_day_local st) d)
     else (st, d))"







text \<open>
  A summary row that carries nothing but its count: no duration, no energy, no average.
  \<open>on_bare\<close> says this of every \<^verbatim>\<open>"ON"\<close> row of a table.
\<close>

definition bare :: "'a agg_row_scheme \<Rightarrow> bool" where
  "bare r =
     (total_time_s r = 0 \<and> consumption_kw r = None \<and> positive_kw r = None
      \<and> negative_kw r = None \<and> hp_temp_in r = None \<and> hp_temp_out r = None
      \<and> hp_temp_diff r = None \<and> hp_activeflow_m3h r = None \<and> hp_totalflow r = None
      \<and> ts_ambient_temp r = None \<and> ts_ambient_humidity r = None)"

definition on_bare :: "'a agg_row_scheme list \<Rightarrow> bool" where
  "on_bare tbl = (\<forall>r \<in> set tbl. status r = ''ON'' \<longrightarrow> bare r)"

text \<open>
  The durations of a month's rows of one status add up to the duration of the year
  table's row for that month and status, which is the only such row; no row on either
  side when there is none on the other. Likewise between the year table and the total
  table.
\<close>

definition year_month_consistent :: "db \<Rightarrow> int \<Rightarrow> int \<Rightarrow> string \<Rightarrow> bool" where
  "year_month_consistent d y m st =
     (map total_time_s
        (filter (\<lambda>r. (year r = y \<and> month r = m) \<and> status r = st) (year_summary d))
      = (if filter (\<lambda>r. (year r = y \<and> month r = m) \<and> status r = st) (month_summary d) = []
         then []
         else [sum_list (map total_time_s
                 (filter (\<lambda>r. (year r = y \<and> month r = m) \<and> status r = st)
                    (month_summary d)))]))"

definition total_year_consistent :: "db \<Rightarrow> int \<Rightarrow> string \<Rightarrow> bool" where
  "total_year_consistent d y st =
     (map total_time_s (filter (\<lambda>r. year r = y \<and> status r = st) (total_summary d))
      = (if filter (\<lambda>r. year r = y \<and> status r = st) (year_summary d) = [] then []
         else [sum_list (map total_time_s
                 (filter (\<lambda>r. year r = y \<and> status r = st) (year_summary d)))]))"

section \<open>Theorems\<close>

lemma or_else_simps:
  "or_else None dflt = dflt"
  "or_else (Some x) dflt = (if x = 0 then dflt else x)"
  by (simp_all add: or_else_def)

subsection \<open>The mode classifier\<close>

lemma HPFLOW_val: "HPFLOW = 3602879701896397 / 18014398509481984"
  by code_simp

lemma HPDT_val: "HPDT = 5764607523034235 / 288230376151711744"
  by code_simp

lemmas thresholds = HPWORK_def HPWORKMIN_def HPFLOW_val HPAMB_def

lemma ref_snapshot_values:
  "em_p (ref_snapshot p f t_in t_out amb) = p"
  "flow (ref_snapshot p f t_in t_out amb) = f"
  "get (ref_snapshot p f t_in t_out amb) ''hm_temp_IN'' = Some t_in"
  "get (ref_snapshot p f t_in t_out amb) ''hm_temp_OUT'' = Some t_out"
  "get (ref_snapshot p f t_in t_out amb) ''ts_ambient_temp'' = Some amb"
  by (simp_all add: ref_snapshot_def em_p_def flow_def or_else_def get_def)

text \<open>The rounded sums of the temperatures used below.\<close>

lemma margin_35_45: "fl (35 + HPDT) < 45"
  by code_simp

lemma margin_45_35: "\<not> fl (45 + HPDT) < 35"
  by code_simp

lemma margin_40_40: "\<not> fl (40 + HPDT) < 40"
  by code_simp

lemma margin_3008_301: "fl (fl (3008 / 100) + HPDT) < fl (301 / 10)"
  by code_simp

lemma margin_3202_32: "\<not> fl (32 + HPDT) < fl (3202 / 100)"
  by code_simp

lemma margin_3202_32_back: "\<not> fl (fl (3202 / 100) + HPDT) < 32"
  by code_simp


text \<open>
  Claim C3. The classifier is a function of the snapshot and the previous mode alone, and
  its branches are tried in order, the first that matches deciding: with power above
  \<open>HPWORK\<close> and a positive flow, inlet above the float sum of outlet and \<open>HPDT\<close> gives
  heating; otherwise outlet above the float sum of inlet and \<open>HPDT\<close> gives defrost when
  the ambient temperature is known and below \<open>HPAMB\<close>, cooling when not; otherwise, or
  with a temperature unknown, the previous mode is kept (standby when there is none).
  Only when that first test fails does power above \<open>HPWORKMIN\<close> with flow above
  \<open>HPFLOW\<close> keep the previous mode, and only when both fail is the mode standby. On the
  reference inputs of the specification the results are heating, defrost, cooling and
  standby.
\<close>

theorem classifier_first_match_and_reference_inputs:
  "(HPWORK < em_p d \<and> 0 < flow d \<and> get d ''hm_temp_IN'' = Some t_in \<and> get d ''hm_temp_OUT'' = Some t_out
      \<and> fl (t_out + HPDT) < t_in
      \<longrightarrow> compute_logical_status prev d = ''H'')
   \<and> (HPWORK < em_p d \<and> 0 < flow d \<and> get d ''hm_temp_IN'' = Some t_in \<and> get d ''hm_temp_OUT'' = Some t_out
      \<and> \<not> fl (t_out + HPDT) < t_in \<and> fl (t_in + HPDT) < t_out
      \<longrightarrow> compute_logical_status prev d =
           (case get d ''ts_ambient_temp'' of
              Some a \<Rightarrow> if a < HPAMB then ''D'' else ''C'' | None \<Rightarrow> ''C''))
   \<and> (HPWORK < em_p d \<and> 0 < flow d \<and> get d ''hm_temp_IN'' = Some t_in \<and> get d ''hm_temp_OUT'' = Some t_out
      \<and> \<not> fl (t_out + HPDT) < t_in \<and> \<not> fl (t_in + HPDT) < t_out
      \<longrightarrow> compute_logical_status prev d = last_or_S prev)
   \<and> (HPWORK < em_p d \<and> 0 < flow d \<and> (get d ''hm_temp_IN'' = None \<or> get d ''hm_temp_OUT'' = None)
      \<longrightarrow> compute_logical_status prev d = last_or_S prev)
   \<and> (\<not> (HPWORK < em_p d \<and> 0 < flow d) \<and> HPWORKMIN < em_p d \<and> HPFLOW < flow d
      \<longrightarrow> compute_logical_status prev d = last_or_S prev)
   \<and> (\<not> (HPWORK < em_p d \<and> 0 < flow d) \<and> \<not> (HPWORKMIN < em_p d \<and> HPFLOW < flow d)
      \<longrightarrow> compute_logical_status prev d = ''S'')
   \<and> compute_logical_status (Some ''S'') (ref_snapshot 400 (1 / 2) 45 35 15) = ''H''
   \<and> compute_logical_status prev (ref_snapshot 400 (1 / 2) 35 45 5) = ''D''
   \<and> compute_logical_status prev (ref_snapshot 400 (1 / 2) 35 45 25) = ''C''
   \<and> compute_logical_status prev (ref_snapshot 50 0 t_in t_out amb) = ''S''"
proof -
  have refs:
    "compute_logical_status (Some ''S'') (ref_snapshot 400 (1 / 2) 45 35 15) = ''H''"
    "compute_logical_status prev (ref_snapshot 400 (1 / 2) 35 45 5) = ''D''"
    "compute_logical_status prev (ref_snapshot 400 (1 / 2) 35 45 25) = ''C''"
    "compute_logical_status prev (ref_snapshot 50 0 t_in t_out amb) = ''S''"
    by (simp_all add: compute_logical_status_def ref_snapshot_values thresholds
        margin_35_45 margin_45_35)
  have branches:
    "HPWORK < em_p d \<and> 0 < flow d \<and> get d ''hm_temp_IN'' = Some t_in \<and> get d ''hm_temp_OUT'' = Some t_out
      \<and> fl (t_out + HPDT) < t_in
      \<longrightarrow> compute_logical_status prev d = ''H''"
    "HPWORK < em_p d \<and> 0 < flow d \<and> get d ''hm_temp_IN'' = Some t_in \<and> get d ''hm_temp_OUT'' = Some t_out
      \<and> \<not> fl (t_out + HPDT) < t_in \<and> fl (t_in + HPDT) < t_out
      \<longrightarrow> compute_logical_status prev d =
           (case get d ''ts_ambient_temp'' of
              Some a \<Rightarrow> if a < HPAMB then ''D'' else ''C'' | None \<Rightarrow> ''C'')"
    "HPWORK < em_p d \<and> 0 < flow d \<and> get d ''hm_temp_IN'' = Some t_in \<and> get d ''hm_temp_OUT'' = Some t_out
      \<and> \<not> fl (t_out + HPDT) < t_in \<and> \<not> fl (t_in + HPDT) < t_out
      \<longrightarrow> compute_logical_status prev d = last_or_S prev"
    "HPWORK < em_p d \<and> 0 < flow d \<and> (get d ''hm_temp_IN'' = None \<or> get d ''hm_temp_OUT'' = None)
      \<longrightarrow> compute_logical_status prev d = last_or_S prev"
    "\<not> (HPWORK < em_p d \<and> 0 < flow d) \<and> HPWORKMIN < em_p d \<and> HPFLOW < flow d
      \<longrightarrow> compute_logical_status prev d = last_or_S prev"
    "\<not> (HPWORK < em_p d \<and> 0 < flow d) \<and> \<not> (HPWORKMIN < em_p d \<and> HPFLOW < flow d)
      \<longrightarrow> compute_logical_status prev d = ''S''"
    by (auto simp add: compute_logical_status_def split: option.splits)
  from refs branches show ?thesis by blast
qed

text \<open>
  The branches at concrete snapshots, the previous mode being cooling: heating wins over
  the hold-over that the same snapshot would also match; defrost; equal temperatures and
  unknown temperatures keep cooling; medium power keeps cooling; low power is standby.
  The margin is the one of the float sum: the readings 30.1 and 30.08 are heating (the
  sum of 30.08 and 0.02 rounds to the double below 30.1), the readings 32.02 and 32.0
  keep the previous mode (the sum of 32.0 and 0.02 rounds to the double 32.02).
\<close>

theorem classifier_first_match_witness:
  "HPWORK < em_p (ref_snapshot 400 (1 / 2) 45 35 15)
   \<and> 0 < flow (ref_snapshot 400 (1 / 2) 45 35 15)
   \<and> HPWORKMIN < em_p (ref_snapshot 400 (1 / 2) 45 35 15)
   \<and> HPFLOW < flow (ref_snapshot 400 (1 / 2) 45 35 15)
   \<and> fl (35 + HPDT) < 45
   \<and> compute_logical_status (Some ''C'') (ref_snapshot 400 (1 / 2) 45 35 15) = ''H''
   \<and> compute_logical_status (Some ''C'') (ref_snapshot 400 (1 / 2) 35 45 5) = ''D''
   \<and> compute_logical_status (Some ''C'') (ref_snapshot 400 (1 / 2) 40 40 5) = ''C''
   \<and> compute_logical_status (Some ''C'') [(''em_activepower'', 400), (''hm_flow_m3h'', 1 / 2)] = ''C''
   \<and> fl (fl (3008 / 100) + HPDT) < fl (301 / 10)
   \<and> compute_logical_status (Some ''C'')
        (ref_snapshot 400 (1 / 2) (fl (301 / 10)) (fl (3008 / 100)) 15) = ''H''
   \<and> \<not> fl (32 + HPDT) < fl (3202 / 100)
   \<and> compute_logical_status (Some ''C'')
        (ref_snapshot 400 (1 / 2) (fl (3202 / 100)) 32 15) = ''C''
   \<and> \<not> HPWORK < em_p (ref_snapshot 200 (1 / 2) 45 35 15)
   \<and> HPWORKMIN < em_p (ref_snapshot 200 (1 / 2) 45 35 15)
   \<and> HPFLOW < flow (ref_snapshot 200 (1 / 2) 45 35 15)
   \<and> compute_logical_status (Some ''C'') (ref_snapshot 200 (1 / 2) 45 35 15) = ''C''
   \<and> \<not> HPWORKMIN < em_p (ref_snapshot 50 0 45 35 15)
   \<and> compute_logical_status (Some ''C'') (ref_snapshot 50 0 45 35 15) = ''S''"
proof -
  let ?d = "[(''em_activepower'', 400), (''hm_flow_m3h'', 1 / 2)] :: snapshot"
  let ?m = "ref_snapshot 400 (1 / 2) (fl (301 / 10)) (fl (3008 / 100)) 15"
  let ?n = "ref_snapshot 400 (1 / 2) (fl (3202 / 100)) 32 15"
  have v: "em_p ?d = 400" "flow ?d = 1 / 2" "get ?d ''hm_temp_IN'' = None"
    by (simp_all add: em_p_def flow_def or_else_def get_def)
  have m: "HPWORK < em_p ?m" "0 < flow ?m" "get ?m ''hm_temp_IN'' = Some (fl (301 / 10))"
    "get ?m ''hm_temp_OUT'' = Some (fl (3008 / 100))"
    unfolding ref_snapshot_values by (simp_all add: thresholds)
  have n: "HPWORK < em_p ?n" "0 < flow ?n" "get ?n ''hm_temp_IN'' = Some (fl (3202 / 100))"
    "get ?n ''hm_temp_OUT'' = Some 32"
    unfolding ref_snapshot_values by (simp_all add: thresholds)
  have c: "last_or_S (Some ''C'') = ''C''"
    by (simp add: last_or_S_def)
  from classifier_first_match_and_reference_inputs
         [of ?m "fl (301 / 10)" "fl (3008 / 100)" "Some ''C''"] m margin_3008_301
  have r1: "compute_logical_status (Some ''C'') ?m = ''H''"
    by blast
  from classifier_first_match_and_reference_inputs
         [of ?n "fl (3202 / 100)" 32 "Some ''C''"] n margin_3202_32 margin_3202_32_back
  have "compute_logical_status (Some ''C'') ?n = last_or_S (Some ''C'')"
    by blast
  then have r2: "compute_logical_status (Some ''C'') ?n = ''C''"
    by (simp only: c)
  have r3:
    "HPWORK < em_p (ref_snapshot 400 (1 / 2) 45 35 15)
     \<and> 0 < flow (ref_snapshot 400 (1 / 2) 45 35 15)
     \<and> HPWORKMIN < em_p (ref_snapshot 400 (1 / 2) 45 35 15)
     \<and> HPFLOW < flow (ref_snapshot 400 (1 / 2) 45 35 15)
     \<and> fl (35 + HPDT) < 45
     \<and> compute_logical_status (Some ''C'') (ref_snapshot 400 (1 / 2) 45 35 15) = ''H''
     \<and> compute_logical_status (Some ''C'') (ref_snapshot 400 (1 / 2) 35 45 5) = ''D''
     \<and> compute_logical_status (Some ''C'') (ref_snapshot 400 (1 / 2) 40 40 5) = ''C''
     \<and> compute_logical_status (Some ''C'') ?d = ''C''
     \<and> \<not> HPWORK < em_p (ref_snapshot 200 (1 / 2) 45 35 15)
     \<and> HPWORKMIN < em_p (ref_snapshot 200 (1 / 2) 45 35 15)
     \<and> HPFLOW < flow (ref_snapshot 200 (1 / 2) 45 35 15)
     \<and> compute_logical_status (Some ''C'') (ref_snapshot 200 (1 / 2) 45 35 15) = ''C''
     \<and> \<not> HPWORKMIN < em_p (ref_snapshot 50 0 45 35 15)
     \<and> compute_logical_status (Some ''C'') (ref_snapshot 50 0 45 35 15) = ''S''"
    using classifier_first_match_and_reference_inputs
            [of "ref_snapshot 400 (1 / 2) 45 35 15" 45 35 "Some ''C''"]
          classifier_first_match_and_reference_inputs
            [of "ref_snapshot 400 (1 / 2) 35 45 5" 35 45 "Some ''C''"]
          classifier_first_match_and_reference_inputs
            [of "ref_snapshot 400 (1 / 2) 40 40 5" 40 40 "Some ''C''"]
          classifier_first_match_and_reference_inputs [of ?d 0 0 "Some ''C''"]
          classifier_first_match_and_reference_inputs
            [of "ref_snapshot 200 (1 / 2) 45 35 15" 45 35 "Some ''C''"]
          classifier_first_match_and_reference_inputs
            [of "ref_snapshot 50 0 45 35 15" 45 35 "Some ''C''"]
    by (simp add: ref_snapshot_values thresholds last_or_S_def v
        margin_35_45 margin_45_35 margin_40_40)
  from r1 r2 r3 margin_3008_301 margin_3202_32 show ?thesis
    by blast
qed

subsection \<open>The segments of a day\<close>

lemma seg_of_Nil [simp]: "seg_of ds su [] = []"
  by (simp add: seg_of_def store_day_segment_def)

lemma seg_of_single [simp]: "seg_of ds su [r] = []"
  by (simp add: seg_of_def store_day_segment_def)

lemma store_day_segment_shift:
  assumes "i \<le> j" "j < length rows"
  shows "store_day_segment ds su rows i j =
         seg_of ds su (take (j + 1 - i) (drop i rows))"
proof (cases "i = j")
  case True
  then show ?thesis using assms
    by (simp add: seg_of_def store_day_segment_def)
next
  case False
  with assms have lt: "i < j" by simp
  have e: "j + 1 - i = Suc (j - i)" using assms by simp
  let ?run = "take (Suc (j - i)) (drop i rows)"
  have len: "length ?run = Suc (j - i)" using assms by simp
  have h0: "?run ! 0 = rows ! i" using assms by simp
  have hl: "?run ! (j - i) = rows ! j" using assms by simp
  have ne: "\<not> j \<le> i" "\<not> length rows \<le> j" "0 < j - i" using lt assms by simp_all
  show ?thesis
    unfolding e seg_of_def store_day_segment_def len
    using ne h0 hl by (simp add: Let_def)
qed

lemma segment_loop_seg_list:
  assumes "rows = pre @ cur @ rest"
    and "seg = (if cur = [] then None else Some (length pre, status (hd cur)))"
    and "i = length pre + length cur"
  shows "segment_loop ds su rows i rest seg = seg_list ds su cur rest"
  using assms
proof (induction rest arbitrary: pre cur seg i)
  case Nil
  show ?case
  proof (cases "cur = []")
    case True
    with Nil show ?thesis by simp
  next
    case False
    then obtain c cs where "cur = c # cs" by (cases cur) auto
    then have "length pre \<le> length rows - 1" "length rows - 1 < length rows"
      using Nil by simp_all
    from store_day_segment_shift[OF this, of ds su] False Nil
    show ?thesis by simp
  qed
next
  case (Cons r rest)
  have close: "store_day_segment ds su rows (length pre) (i - 1) = seg_of ds su cur" if ne: "cur \<noteq> []"
  proof -
    obtain c cs where "cur = c # cs" using ne by (cases cur) auto
    then have a: "length pre \<le> i - 1" "i - 1 < length rows"
      using Cons.prems by simp_all
    have "take (i - 1 + 1 - length pre) (drop (length pre) rows) = cur"
      using ne Cons.prems by simp
    with store_day_segment_shift[OF a, of ds su] show ?thesis by simp
  qed
  have step_new: "segment_loop ds su rows (i + 1) rest (Some (i, status r)) = seg_list ds su [r] rest"
    by (rule Cons.IH[where cur = "[r]" and pre = "pre @ cur"]) (use Cons.prems in auto)
  have step_none: "segment_loop ds su rows (i + 1) rest None = seg_list ds su [] rest"
    by (rule Cons.IH[where cur = "[]" and pre = "pre @ cur @ [r]"]) (use Cons.prems in auto)
  have step_ext: "segment_loop ds su rows (i + 1) rest seg = seg_list ds su (cur @ [r]) rest" if "cur \<noteq> []"
    by (rule Cons.IH[where cur = "cur @ [r]" and pre = pre]) (use Cons.prems that in auto)
  show ?case
  proof (cases "cur = []")
    case True
    then have "seg = None" using Cons.prems by simp
    then show ?thesis using True step_new step_none by (simp add: Let_def)
  next
    case False
    then have "seg = Some (length pre, status (hd cur))" using Cons.prems by simp
    then show ?thesis using False step_new step_none step_ext close
      by (simp add: Let_def)
  qed
qed

lemma day_segments_seg_list: "day_segments ds su rows = seg_list ds su [] rows"
  unfolding day_segments_def
  by (rule segment_loop_seg_list[where pre = "[]"]) auto


lemma store_day_segment_props:
  assumes "x \<in> set (store_day_segment ds su rows i j)"
  shows "start_ts_utc_s x < end_ts_utc_s x \<and> total_time_s x = end_ts_utc_s x - start_ts_utc_s x
         \<and> status x \<in> allowed_status \<and> day_date x = ds"
  using assms by (auto simp add: store_day_segment_def Let_def split: if_splits)

lemma segment_loop_props:
  assumes "x \<in> set (segment_loop ds su rows i rest seg)"
  shows "start_ts_utc_s x < end_ts_utc_s x \<and> total_time_s x = end_ts_utc_s x - start_ts_utc_s x
         \<and> status x \<in> allowed_status \<and> day_date x = ds"
  using assms
proof (induction rest arbitrary: i seg)
  case Nil
  then show ?case
    by (auto split: option.splits dest: store_day_segment_props)
next
  case (Cons r rest)
  then show ?case
    by (auto simp add: Let_def split: option.splits if_splits dest: store_day_segment_props)
qed

lemma set_fold_insert_or_replace:
  "set (fold (insert_or_replace pk) rs tbl) \<subseteq> set rs \<union> set tbl"
proof (induction rs arbitrary: tbl)
  case Nil
  show ?case by simp
next
  case (Cons r rs)
  have "set (insert_or_replace pk r tbl) \<subseteq> insert r (set tbl)"
    by (auto simp add: insert_or_replace_def)
  with Cons.IH[of "insert_or_replace pk r tbl"] show ?case by auto
qed

lemma off_rows_status: "x \<in> set (off_rows ds su eu l) \<Longrightarrow> status x = ''OFF''"
  by (induction ds su eu l rule: off_rows.induct)
     (auto simp add: off_row_def Let_def split: if_splits)

lemma on_rows_status: "x \<in> set (on_rows ds su tbl rows) \<Longrightarrow> status x = ''ON''"
  by (auto simp add: on_rows_def on_row_def Let_def)

lemma not_allowed_boundary [simp]: "''ON'' \<notin> allowed_status" "''OFF'' \<notin> allowed_status"
  by (simp_all add: allowed_status_def)

lemma built_rows_allowed:
  assumes "x \<in> set (built_rows cal offs dl tbl)" "status x \<in> allowed_status"
  shows "x \<in> set (day_segments dl (local_midnight cal dl)
            (day_rows (local_midnight cal dl) (local_midnight cal (dl + 1)) tbl))"
  using assms
  by (auto simp add: built_rows_def Let_def dest: off_rows_status on_rows_status)

lemma seg_list_append_break:
  assumes "ys = [] \<or> status (hd ys) \<notin> allowed_status
           \<or> (case xs of [] \<Rightarrow> cur = [] \<or> status (hd cur) \<noteq> status (hd ys)
                | _ \<Rightarrow> status (last xs) \<noteq> status (hd ys))"
  shows "seg_list ds su cur (xs @ ys) = seg_list ds su cur xs @ seg_list ds su [] ys"
  using assms
proof (induction xs arbitrary: cur)
  case Nil
  then show ?case by (cases ys) auto
next
  case (Cons x xs)
  have nxt: "seg_list ds su c (xs @ ys) = seg_list ds su c xs @ seg_list ds su [] ys"
    if "c = [] \<or> status (hd c) = status x" for c
  proof (rule Cons.IH)
    show "ys = [] \<or> status (hd ys) \<notin> allowed_status
           \<or> (case xs of [] \<Rightarrow> c = [] \<or> status (hd c) \<noteq> status (hd ys)
                | _ \<Rightarrow> status (last xs) \<noteq> status (hd ys))"
      using Cons.prems that by (cases xs) auto
  qed
  have a: "seg_list ds su [] (xs @ ys) = seg_list ds su [] xs @ seg_list ds su [] ys"
    by (rule nxt) simp
  have b: "seg_list ds su [x] (xs @ ys) = seg_list ds su [x] xs @ seg_list ds su [] ys"
    by (rule nxt) simp
  have c: "seg_list ds su (cur @ [x]) (xs @ ys) = seg_list ds su (cur @ [x]) xs @ seg_list ds su [] ys"
    if "cur \<noteq> []" "status x = status (hd cur)"
    by (rule nxt) (use that in simp)
  show ?case using a b c by simp
qed

lemma seg_list_append_break_last:
  assumes "xs \<noteq> []"
    and "ys = [] \<or> status (hd ys) \<noteq> status (last xs)"
  shows "seg_list ds su cur (xs @ ys) = seg_list ds su cur xs @ seg_list ds su [] ys"
proof (rule seg_list_append_break)
  obtain x xs' where xs: "xs = x # xs'" using assms(1) by (cases xs) auto
  have "(case xs of [] \<Rightarrow> cur = [] \<or> status (hd cur) \<noteq> status (hd ys)
          | _ \<Rightarrow> status (last xs) \<noteq> status (hd ys)) = (status (last xs) \<noteq> status (hd ys))"
    unfolding xs by simp
  with assms(2)
  show "ys = [] \<or> status (hd ys) \<notin> allowed_status
        \<or> (case xs of [] \<Rightarrow> cur = [] \<or> status (hd cur) \<noteq> status (hd ys)
             | _ \<Rightarrow> status (last xs) \<noteq> status (hd ys))"
    by auto
qed

lemma seg_list_single: "seg_list ds su [] [r] = []"
  by simp

lemma seg_list_isolated:
  assumes "pre = [] \<or> status (last pre) \<noteq> status r"
    and "post = [] \<or> status (hd post) \<noteq> status r"
  shows "seg_list ds su [] (pre @ [r] @ post) = seg_list ds su [] pre @ seg_list ds su [] post"
proof -
  have a: "seg_list ds su [] ((pre @ [r]) @ post)
           = seg_list ds su [] (pre @ [r]) @ seg_list ds su [] post"
    by (rule seg_list_append_break_last) (use assms(2) in auto)
  have b: "seg_list ds su [] (pre @ [r]) = seg_list ds su [] pre @ seg_list ds su [] [r]"
  proof (cases "pre = []")
    case True
    then show ?thesis by simp
  next
    case False
    then show ?thesis
      by (intro seg_list_append_break_last) (use assms(1) in auto)
  qed
  have "seg_list ds su [] (pre @ [r] @ post) = seg_list ds su [] ((pre @ [r]) @ post)"
    by simp
  also have "\<dots> = (seg_list ds su [] pre @ seg_list ds su [] [r]) @ seg_list ds su [] post"
    by (simp only: a b)
  also have "\<dots> = seg_list ds su [] pre @ seg_list ds su [] post"
    by (simp only: seg_list_single append_Nil2)
  finally show ?thesis .
qed

text \<open>
  Claim C10. After a day is rebuilt, each of its rows with an accumulating status (S, H, C
  or D) ends strictly after it starts, and its duration is the difference, so it is
  positive. And a row that is a run by itself (the row before it and the row after it,
  where there is one, have another status) gives no segment: the segments of the day are
  those of the rows before it followed by those of the rows after it.
\<close>

theorem stored_segments_have_positive_duration:
  "(\<forall>x \<in> set (day_summary (build_day_summary_for_date cal offs dl d)).
      day_date x = dl \<and> status x \<in> allowed_status \<longrightarrow>
        start_ts_utc_s x < end_ts_utc_s x
        \<and> total_time_s x = end_ts_utc_s x - start_ts_utc_s x \<and> 0 < total_time_s x)
   \<and> ((pre = [] \<or> status (last pre) \<noteq> status r) \<and> (post = [] \<or> status (hd post) \<noteq> status r)
        \<longrightarrow> day_segments ds su (pre @ [r] @ post) = day_segments ds su pre @ day_segments ds su post)"
proof (intro conjI ballI impI)
  fix x
  assume x: "x \<in> set (day_summary (build_day_summary_for_date cal offs dl d))"
    and k: "day_date x = dl \<and> status x \<in> allowed_status"
  from x have "x \<in> set (built_rows cal offs dl (hp_samples d))
      \<or> x \<in> set (filter (\<lambda>r. day_date r \<noteq> dl) (day_summary d))"
    using set_fold_insert_or_replace[of day_pk "built_rows cal offs dl (hp_samples d)"
        "filter (\<lambda>r. day_date r \<noteq> dl) (day_summary d)"]
    by (auto simp add: build_day_summary_for_date_def)
  with k have "x \<in> set (built_rows cal offs dl (hp_samples d))" by auto
  with k have "x \<in> set (day_segments dl (local_midnight cal dl)
            (day_rows (local_midnight cal dl) (local_midnight cal (dl + 1)) (hp_samples d)))"
    by (simp add: built_rows_allowed)
  then have p: "start_ts_utc_s x < end_ts_utc_s x \<and> total_time_s x = end_ts_utc_s x - start_ts_utc_s x"
    unfolding day_segments_def by (auto dest: segment_loop_props)
  then show "start_ts_utc_s x < end_ts_utc_s x" by simp
  from p show "total_time_s x = end_ts_utc_s x - start_ts_utc_s x" by simp
  from p show "0 < total_time_s x" by simp
next
  assume "(pre = [] \<or> status (last pre) \<noteq> status r) \<and> (post = [] \<or> status (hd post) \<noteq> status r)"
  then show "day_segments ds su (pre @ [r] @ post) = day_segments ds su pre @ day_segments ds su post"
    by (simp only: day_segments_seg_list seg_list_isolated)
qed

text \<open>
  On \<open>example_db\<close> the rebuilt day has such a row; and a heating row between a standby
  row and two standby rows adds nothing to their segments.
\<close>

theorem stored_segments_witness:
  "(\<exists>x \<in> set (day_summary (build_day_summary_for_date eet [] 0 example_db)).
      day_date x = 0 \<and> status x \<in> allowed_status \<and> start_ts_utc_s x < end_ts_utc_s x
      \<and> total_time_s x = end_ts_utc_s x - start_ts_utc_s x \<and> 0 < total_time_s x)
   \<and> status (last [sample_row [] ''S'' 0]) \<noteq> status (sample_row [] ''H'' 5)
   \<and> status (hd [sample_row [] ''S'' 10, sample_row [] ''S'' 20]) \<noteq> status (sample_row [] ''H'' 5)
   \<and> day_segments 0 0 ([sample_row [] ''S'' 0] @ [sample_row [] ''H'' 5]
         @ [sample_row [] ''S'' 10, sample_row [] ''S'' 20])
      = day_segments 0 0 [sample_row [] ''S'' 0]
        @ day_segments 0 0 [sample_row [] ''S'' 10, sample_row [] ''S'' 20]"
proof -
  let ?tbl = "day_summary (build_day_summary_for_date eet [] 0 example_db)"
  have ne: "?tbl \<noteq> []" by code_simp
  then have m: "hd ?tbl \<in> set ?tbl" by simp
  have k: "day_date (hd ?tbl) = 0 \<and> status (hd ?tbl) \<in> allowed_status" by code_simp
  have s: "status (sample_row [] ''S'' 0) \<noteq> status (sample_row [] ''H'' 5)"
    "status (sample_row [] ''S'' 10) \<noteq> status (sample_row [] ''H'' 5)"
    by (simp_all add: sample_row_def)
  note t = stored_segments_have_positive_duration
             [of eet "[]" 0 example_db "[sample_row [] ''S'' 0]" "sample_row [] ''H'' 5"
                 "[sample_row [] ''S'' 10, sample_row [] ''S'' 20]" 0 0]
  from t m k have "start_ts_utc_s (hd ?tbl) < end_ts_utc_s (hd ?tbl)
      \<and> total_time_s (hd ?tbl) = end_ts_utc_s (hd ?tbl) - start_ts_utc_s (hd ?tbl)
      \<and> 0 < total_time_s (hd ?tbl)"
    by blast
  with m k have "\<exists>x \<in> set ?tbl.
      day_date x = 0 \<and> status x \<in> allowed_status \<and> start_ts_utc_s x < end_ts_utc_s x
      \<and> total_time_s x = end_ts_utc_s x - start_ts_utc_s x \<and> 0 < total_time_s x"
    by blast
  moreover from t s have "day_segments 0 0 ([sample_row [] ''S'' 0] @ [sample_row [] ''H'' 5]
         @ [sample_row [] ''S'' 10, sample_row [] ''S'' 20])
      = day_segments 0 0 [sample_row [] ''S'' 0]
        @ day_segments 0 0 [sample_row [] ''S'' 10, sample_row [] ''S'' 20]"
    by simp
  ultimately show ?thesis using s by simp
qed

text \<open>
  Claim C1, which the code departs from. The claim takes the end of a segment to be the
  closing row, one past the last row of the run. The loop passes \<^verbatim>\<open>i - 1\<close>, the last
  row of the run itself, although the documentation of \<^verbatim>\<open>_store_day_segment\<close> asks
  for the first row of another status. In \<open>example_day\<close> the first standby run (the rows
  at 0, 300 and 450, closed by the heating row at 455) is stored with end 450, duration
  450 and consumption 102 - 100; the claim gives end 455, duration 455 and consumption
  103 - 100. The heating run is stored up to 475, not up to its closing row at 480.
\<close>

theorem segment_ends_at_last_row_of_run:
  "map (\<lambda>x. (status x, start_ts_utc_s x, end_ts_utc_s x, total_time_s x, consumption_kw x))
     (day_segments 0 0 example_day)
   = [(''S'', 0, 450, 450, Some 2), (''H'', 455, 475, 20, Some 4), (''S'', 480, 780, 300, Some 1)]"
  by code_simp

text \<open>
  Claim C2, which the code departs from by the same defect. The samples of
  \<open>example_db\<close> cover the 780 s from the first to the last without a gap, no \<^verbatim>\<open>"ON"\<close>
  or \<^verbatim>\<open>"OFF"\<close> row among them; the durations of the rebuilt day's rows sum to
  770 s, each change of status losing the 5 s up to the closing row, so the sum is more
  than one tick (\<open>XSEC\<close>, 5 s) short of the span.
\<close>

theorem durations_fall_short_of_span:
  "sum_list (map total_time_s
      (filter (\<lambda>x. status x \<noteq> ''ON'')
         (day_summary (build_day_summary_for_date eet [] 0 example_db)))) = 770
   \<and> ts_utc_s (last (hp_samples example_db)) - ts_utc_s (hd (hp_samples example_db)) = 780
   \<and> XSEC < 780 - 770"
  by code_simp

subsection \<open>Rebuilding a day\<close>

lemma built_rows_day:
  assumes "x \<in> set (built_rows cal offs dl tbl)"
  shows "day_date x = dl"
proof -
  have off: "day_date y = ds" if "y \<in> set (off_rows ds su eu l)" for y ds su eu l
    using that
    by (induction ds su eu l rule: off_rows.induct)
       (auto simp add: off_row_def Let_def split: if_splits)
  have on: "day_date y = ds" if "y \<in> set (on_rows ds su t rows)" for y ds su t rows
    using that by (auto simp add: on_rows_def on_row_def Let_def)
  have seg: "day_date y = ds" if "y \<in> set (day_segments ds su rows)" for y ds su rows
    using that unfolding day_segments_def by (auto dest: segment_loop_props)
  from assms show ?thesis
    by (auto simp add: built_rows_def Let_def dest: off on seg)
qed

lemma filter_other_days_fold:
  assumes "\<forall>r \<in> set rs. day_date r = dl"
  shows "filter (\<lambda>x. day_date x \<noteq> dl) (fold (insert_or_replace day_pk) rs tbl)
         = filter (\<lambda>x. day_date x \<noteq> dl) tbl"
  using assms
proof (induction rs arbitrary: tbl)
  case Nil
  show ?case by simp
next
  case (Cons r rs)
  have "filter (\<lambda>x. day_date x \<noteq> dl) (insert_or_replace day_pk r tbl)
        = filter (\<lambda>x. day_date x \<noteq> dl) tbl"
    using Cons.prems
    by (auto simp add: insert_or_replace_def day_pk_def intro: filter_cong)
  with Cons show ?case by simp
qed

lemma filter_this_day_fold:
  assumes "\<forall>r \<in> set rs. day_date r = dl"
  shows "filter (\<lambda>x. day_date x = dl) (fold (insert_or_replace day_pk) rs tbl)
         = fold (insert_or_replace day_pk) rs (filter (\<lambda>x. day_date x = dl) tbl)"
  using assms
proof (induction rs arbitrary: tbl)
  case Nil
  show ?case by simp
next
  case (Cons r rs)
  have "filter (\<lambda>x. day_date x = dl) (insert_or_replace day_pk r tbl)
        = insert_or_replace day_pk r (filter (\<lambda>x. day_date x = dl) tbl)"
    using Cons.prems
    by (auto simp add: insert_or_replace_def intro: filter_cong)
  with Cons show ?case by simp
qed

lemma build_day_summary_hp_samples [simp]:
  "hp_samples (build_day_summary_for_date cal offs dl d) = hp_samples d"
  by (simp add: build_day_summary_for_date_def)

text \<open>
  Claim C8. Rebuilding a day a second time, the samples and the offline intervals being
  the same, changes nothing: the result of the first rebuild is returned as it is. The
  rows of the day after a rebuild are the rows built from the samples, inserted into an
  empty table, whatever the day's rows were before.
\<close>

theorem day_rebuild_idempotent:
  "build_day_summary_for_date cal offs dl (build_day_summary_for_date cal offs dl d)
     = build_day_summary_for_date cal offs dl d
   \<and> filter (\<lambda>x. day_date x = dl) (day_summary (build_day_summary_for_date cal offs dl d))
     = fold (insert_or_replace day_pk) (built_rows cal offs dl (hp_samples d)) []"
proof
  let ?R = "built_rows cal offs dl (hp_samples d)"
  have R: "\<forall>r \<in> set ?R. day_date r = dl" by (simp add: built_rows_day)
  show "build_day_summary_for_date cal offs dl (build_day_summary_for_date cal offs dl d)
     = build_day_summary_for_date cal offs dl d"
    by (simp add: build_day_summary_for_date_def filter_other_days_fold[OF R])
  have "filter (\<lambda>x. day_date x = dl) (filter (\<lambda>r. day_date r \<noteq> dl) (day_summary d)) = []"
    by (simp add: filter_empty_conv)
  then show "filter (\<lambda>x. day_date x = dl) (day_summary (build_day_summary_for_date cal offs dl d))
     = fold (insert_or_replace day_pk) ?R []"
    by (simp add: build_day_summary_for_date_def filter_this_day_fold[OF R])
qed

subsection \<open>Missing values\<close>

lemma map_filter_Nil_conv: "List.map_filter f xs = [] \<longleftrightarrow> (\<forall>x \<in> set xs. f x = None)"
  by (induction xs) (auto simp add: List.map_filter_simps split: option.splits)

lemma round2_Some: "round2 (Some v) \<noteq> None"
  by (simp add: round2_def)

lemma avg_None_iff:
  "avg col st seg = None \<longleftrightarrow> (\<forall>r \<in> set seg. status r = st \<longrightarrow> col r = None)"
proof -
  let ?f = "\<lambda>r. if status r = st then col r else None"
  have "avg col st seg = None \<longleftrightarrow> List.map_filter ?f seg = []"
    by (simp add: avg_def Let_def round2_Some)
  also have "\<dots> \<longleftrightarrow> (\<forall>r \<in> set seg. ?f r = None)"
    by (rule map_filter_Nil_conv)
  also have "\<dots> \<longleftrightarrow> (\<forall>r \<in> set seg. status r = st \<longrightarrow> col r = None)"
    by auto
  finally show ?thesis .
qed

lemma map_filter_filter:
  "(\<And>x. \<not> P x \<Longrightarrow> f x = None) \<Longrightarrow> List.map_filter f (filter P xs) = List.map_filter f xs"
proof (induction xs)
  case Nil
  show ?case by simp
next
  case (Cons a xs)
  have "f a = None" if "\<not> P a" using that Cons.prems by simp
  with Cons show ?case by (cases "P a"; cases "f a") (simp_all add: List.map_filter_simps)
qed

lemma avg_skips_null: "avg col st (filter (\<lambda>r. col r \<noteq> None) seg) = avg col st seg"
proof -
  have "List.map_filter (\<lambda>r. if status r = st then col r else None) (filter (\<lambda>r. col r \<noteq> None) seg)
        = List.map_filter (\<lambda>r. if status r = st then col r else None) seg"
    by (rule map_filter_filter) simp
  then show ?thesis by (simp add: avg_def)
qed

lemma store_day_segment_temp_in:
  assumes "x \<in> set (store_day_segment ds su rows i j)"
  shows "i < j \<and> j < length rows
         \<and> hp_temp_in x = avg hm_temp_IN (status x) (take (j + 1 - i) (drop i rows))"
proof -
  have c: "\<not> (j \<le> i \<or> length rows \<le> j)"
    using assms by (cases "j \<le> i \<or> length rows \<le> j") (simp_all add: store_day_segment_def)
  have c2: "status (rows ! i) \<in> allowed_status"
    using assms c by (cases "status (rows ! i) \<in> allowed_status")
      (simp_all add: store_day_segment_def Let_def)
  have c3: "\<not> ts_utc_s (rows ! j) \<le> ts_utc_s (rows ! i)"
    using assms c c2 by (cases "ts_utc_s (rows ! j) \<le> ts_utc_s (rows ! i)")
      (simp_all add: store_day_segment_def Let_def)
  have "map (\<lambda>y. (status y, hp_temp_in y)) (store_day_segment ds su rows i j)
        = [(status (rows ! i),
            avg hm_temp_IN (status (rows ! i)) (take (j + 1 - i) (drop i rows)))]"
    using c c2 c3 by (simp add: store_day_segment_def Let_def)
  moreover have "(\<lambda>y. (status y, hp_temp_in y)) x
      \<in> (\<lambda>y. (status y, hp_temp_in y)) ` set (store_day_segment ds su rows i j)"
    using assms by (rule imageI)
  then have "(status x, hp_temp_in x)
      \<in> set (map (\<lambda>y. (status y, hp_temp_in y)) (store_day_segment ds su rows i j))"
    by simp
  ultimately have "(status x, hp_temp_in x) = (status (rows ! i),
            avg hm_temp_IN (status (rows ! i)) (take (j + 1 - i) (drop i rows)))"
    by simp
  then show ?thesis using c by simp
qed

lemma nth_take_drop:
  assumes "i < j" "j < length rows" "n < length (take (j + 1 - i) (drop i rows))"
  shows "take (j + 1 - i) (drop i rows) ! n = rows ! (i + n) \<and> i \<le> i + n \<and> i + n \<le> j"
  using assms by simp

lemma store_day_segment_null_temp:
  assumes "x \<in> set (store_day_segment ds su rows i j)"
    and "\<forall>k. i \<le> k \<and> k \<le> j \<longrightarrow> hm_temp_IN (rows ! k) = None"
  shows "hp_temp_in x = None"
proof -
  let ?seg = "take (j + 1 - i) (drop i rows)"
  note t = store_day_segment_temp_in[OF assms(1)]
  from t have i: "i < j" by (rule conjunct1)
  from t have j: "j < length rows" by (rule conjunct2[THEN conjunct1])
  from t have x: "hp_temp_in x = avg hm_temp_IN (status x) ?seg"
    by (rule conjunct2[THEN conjunct2])
  have null: "hm_temp_IN r = None" if "r \<in> set ?seg" for r
  proof -
    from that have "\<exists>n < length ?seg. ?seg ! n = r" by (simp only: in_set_conv_nth)
    then obtain n where n1: "n < length ?seg" and n2: "?seg ! n = r" by (elim exE conjE)
    note k = nth_take_drop[OF i j n1]
    from k assms(2) have "hm_temp_IN (rows ! (i + n)) = None" by blast
    with k n2 show ?thesis by (simp only:)
  qed
  have "\<forall>r \<in> set ?seg. status r = status x \<longrightarrow> hm_temp_IN r = None"
    using null by blast
  then show ?thesis unfolding x avg_None_iff .
qed

lemma get_Cons: "get ((k, v) # d) name = (if name = k then Some v else get d name)"
  by (simp add: get_def)

lemma null_power_as_zero:
  assumes "get d ''em_activepower'' = None"
  shows "compute_logical_status prev ((''em_activepower'', 0) # d) = compute_logical_status prev d"
proof -
  have "em_p ((''em_activepower'', 0) # d) = em_p d"
    using assms by (simp add: em_p_def get_Cons or_else_def)
  moreover have "flow ((''em_activepower'', 0) # d) = flow d"
    by (simp add: flow_def get_Cons)
  moreover have "get ((''em_activepower'', 0) # d) ''hm_temp_IN'' = get d ''hm_temp_IN''"
    "get ((''em_activepower'', 0) # d) ''hm_temp_OUT'' = get d ''hm_temp_OUT''"
    "get ((''em_activepower'', 0) # d) ''ts_ambient_temp'' = get d ''ts_ambient_temp''"
    by (simp_all add: get_Cons)
  ultimately show ?thesis by (simp only: compute_logical_status_def)
qed

lemma null_flow_as_zero:
  assumes "get d ''hm_activeflow_m3h'' = None"
  shows "compute_logical_status prev ((''hm_activeflow_m3h'', 0) # d) = compute_logical_status prev d"
proof -
  have "em_p ((''hm_activeflow_m3h'', 0) # d) = em_p d"
    by (simp add: em_p_def get_Cons)
  moreover have "flow ((''hm_activeflow_m3h'', 0) # d) = flow d"
    using assms by (simp add: flow_def get_Cons or_else_def)
  moreover have "get ((''hm_activeflow_m3h'', 0) # d) ''hm_temp_IN'' = get d ''hm_temp_IN''"
    "get ((''hm_activeflow_m3h'', 0) # d) ''hm_temp_OUT'' = get d ''hm_temp_OUT''"
    "get ((''hm_activeflow_m3h'', 0) # d) ''ts_ambient_temp'' = get d ''ts_ambient_temp''"
    by (simp_all add: get_Cons)
  ultimately show ?thesis by (simp only: compute_logical_status_def)
qed

text \<open>
  Claim C9, which the code departs from. The claim is that no computation takes a missing
  operand for zero, the roll-ups among them. The averages of a day segment do leave the
  missing values out (\<open>avg_skips_null\<close>, \<open>store_day_segment_null_temp\<close>). The roll-up
  of the day into the month does not: it divides \<^verbatim>\<open>SUM(col * total_time_s)\<close>, which
  skips the rows whose column is NULL, by \<^verbatim>\<open>SUM(total_time_s)\<close>, which counts the
  time of every row. In \<open>null_ambient_db\<close> the day has two heating segments of 10 s, the
  first without ambient temperature, the second at 10; the month row gets the ambient
  temperature 100 / 20 = 5, the value of reading the missing temperature as 0, where
  leaving it out gives 10; the year and the total inherit the 5. The classifier likewise
  reads a missing power and a missing flow as 0 (\<open>null_power_as_zero\<close>,
  \<open>null_flow_as_zero\<close>).
\<close>

theorem rollup_counts_null_ambient_as_zero:
  "map (\<lambda>x. (status x, total_time_s x, ts_ambient_temp x))
     (day_summary (build_day_summary_for_date eet [] 0 null_ambient_db))
   = [(''H'', 10, None), (''H'', 10, Some 10)]
   \<and> map (\<lambda>x. (status x, total_time_s x, ts_ambient_temp x))
       (month_summary (update_month_year_total_for_day eet 0
          (build_day_summary_for_date eet [] 0 null_ambient_db)))
     = [(''H'', 20, Some 5)]
   \<and> map (\<lambda>x. (status x, total_time_s x, ts_ambient_temp x))
       (year_summary (update_month_year_total_for_day eet 0
          (build_day_summary_for_date eet [] 0 null_ambient_db)))
     = [(''H'', 20, Some 5)]
   \<and> map (\<lambda>x. (status x, total_time_s x, ts_ambient_temp x))
       (total_summary (update_month_year_total_for_day eet 0
          (build_day_summary_for_date eet [] 0 null_ambient_db)))
     = [(''H'', 20, Some 5)]"
  by code_simp

subsection \<open>The main loop\<close>

lemma update_hp_samples [simp]:
  "hp_samples (update_month_year_total_for_day cal dl d) = hp_samples d"
  by (simp add: update_month_year_total_for_day_def Let_def)

lemma rebuild_hp_samples [simp]: "hp_samples (rebuild cal offs dl d) = hp_samples d"
  by (simp add: rebuild_def)

lemma fold_rebuild_hp_samples [simp]:
  "hp_samples (fold (rebuild cal offs) days d) = hp_samples d"
  by (induction days arbitrary: d) simp_all

lemma rolled_fields [simp]:
  "first_saved (fst (rolled cal ts (st, d))) = first_saved st"
  "last_logical_status (fst (rolled cal ts (st, d))) = last_logical_status st"
  "last_status_stored (fst (rolled cal ts (st, d))) = last_status_stored st"
  "last_save_time (fst (rolled cal ts (st, d))) = last_save_time st"
  "last_read_data (fst (rolled cal ts (st, d))) = last_read_data st"
  "last_read_ts_utc_s (fst (rolled cal ts (st, d))) = last_read_ts_utc_s st"
  "offline_segments (fst (rolled cal ts (st, d))) = offline_segments st"
  "hp_samples (snd (rolled cal ts (st, d))) = hp_samples d"
  by (simp_all add: rolled_def)

lemma decision_rolled [simp]:
  "status_to_store (fst (rolled cal ts (st, d))) l = status_to_store st l"
  "status_changed (fst (rolled cal ts (st, d))) s = status_changed st s"
  "should_write (fst (rolled cal ts (st, d))) s t = should_write st s t"
  "bridge (fst (rolled cal ts (st, d))) s t tbl = bridge st s t tbl"
  "pending_offline (fst (rolled cal ts (st, d))) ts' tbl = pending_offline st ts' tbl"
  by (simp_all add: status_to_store_def status_changed_def should_write_def bridge_def
      pending_offline_def)










subsection \<open>The offline gap\<close>












subsection \<open>Month, year and total\<close>

lemma fold_insert_or_replace_fresh:
  assumes "distinct (map pk rs)" "\<forall>x \<in> set acc. pk x \<notin> pk ` set rs"
  shows "fold (insert_or_replace pk) rs acc = acc @ rs"
  using assms
proof (induction rs arbitrary: acc)
  case Nil
  show ?case by simp
next
  case (Cons r rs)
  have f: "filter (\<lambda>x. pk x \<noteq> pk r) acc = acc"
    using Cons.prems(2) by (auto simp add: filter_id_conv)
  have i: "insert_or_replace pk r acc = acc @ [r]"
    by (simp add: insert_or_replace_def f)
  have "fold (insert_or_replace pk) rs (acc @ [r]) = (acc @ [r]) @ rs"
  proof (rule Cons.IH)
    show "distinct (map pk rs)" using Cons.prems(1) by simp
    show "\<forall>x \<in> set (acc @ [r]). pk x \<notin> pk ` set rs"
      using Cons.prems by auto
  qed
  then show ?case by (simp add: i)
qed

lemma filter_fold_keep:
  assumes "\<forall>r \<in> set rs. \<not> P r" "\<forall>r \<in> set rs. \<forall>x. P x \<longrightarrow> pk x \<noteq> pk r"
  shows "filter P (fold (insert_or_replace pk) rs tbl) = filter P tbl"
  using assms
proof (induction rs arbitrary: tbl)
  case Nil
  show ?case by simp
next
  case (Cons r rs)
  have "filter P (insert_or_replace pk r tbl) = filter P tbl"
    using Cons.prems by (auto simp add: insert_or_replace_def intro: filter_cong)
  with Cons show ?case by simp
qed

lemma filter_fold_move:
  assumes "\<forall>r \<in> set rs. P r"
  shows "filter P (fold (insert_or_replace pk) rs tbl)
         = fold (insert_or_replace pk) rs (filter P tbl)"
  using assms
proof (induction rs arbitrary: tbl)
  case Nil
  show ?case by simp
next
  case (Cons r rs)
  have "filter P (insert_or_replace pk r tbl) = insert_or_replace pk r (filter P tbl)"
    using Cons.prems by (auto simp add: insert_or_replace_def intro: filter_cong)
  with Cons show ?case by simp
qed

lemma filter_remdups_eq:
  "filter (\<lambda>s. s = st) (remdups xs) = (if st \<in> set xs then [st] else [])"
  by (induction xs) auto

lemma group_by_status_filter:
  "filter (\<lambda>p. fst p = st) (group_by_status rows)
   = (if st \<in> status ` set rows then [(st, filter (\<lambda>r. status r = st) rows)] else [])"
proof -
  have "filter (\<lambda>p. fst p = st) (group_by_status rows)
        = map (\<lambda>s. (s, filter (\<lambda>r. status r = s) rows))
            (filter (\<lambda>s. s = st) (remdups (map status rows)))"
    by (simp add: group_by_status_def filter_map comp_def)
  then show ?thesis by (simp add: filter_remdups_eq)
qed

lemma group_by_status_distinct: "distinct (map fst (group_by_status rows))"
  by (simp add: group_by_status_def comp_def)

lemma int_or_0_sum: "int_or_0 (sql_sum_int xs) = sum_list xs"
  by (simp add: int_or_0_def sql_sum_int_def)

lemma month_row_of_fields [simp]:
  "status (month_row_of y m dd (st, g)) = st"
  "year (month_row_of y m dd (st, g)) = y"
  "month (month_row_of y m dd (st, g)) = m"
  "day (month_row_of y m dd (st, g)) = dd"
  "total_time_s (month_row_of y m dd (st, g))
     = (if st = ''ON'' then 0 else sum_list (map total_time_s g))"
  by (simp_all add: month_row_of_def Let_def int_or_0_sum)

lemma year_row_of_fields [simp]:
  "status (year_row_of y m (st, g)) = st"
  "year (year_row_of y m (st, g)) = y"
  "month (year_row_of y m (st, g)) = m"
  "total_time_s (year_row_of y m (st, g))
     = (if st = ''ON'' then 0 else sum_list (map total_time_s g))"
  by (simp_all add: year_row_of_def Let_def int_or_0_sum)

lemma total_row_of_fields [simp]:
  "status (total_row_of y (st, g)) = st"
  "year (total_row_of y (st, g)) = y"
  "total_time_s (total_row_of y (st, g))
     = (if st = ''ON'' then 0 else sum_list (map total_time_s g))"
  by (simp_all add: total_row_of_def Let_def int_or_0_sum)

lemma row_of_bare:
  "bare (month_row_of y m dd (''ON'', g))"
  "bare (year_row_of y m (''ON'', g2))"
  "bare (total_row_of y (''ON'', g3))"
  by (simp_all add: bare_def month_row_of_def year_row_of_def total_row_of_def Let_def)


lemma rollup_rows:
  assumes P: "\<And>p. P (mk p)" and pk: "\<And>p. pk (mk p) = k (fst p)" and k: "inj k"
  shows "filter P (fold (insert_or_replace pk) (map mk (group_by_status src))
                     (filter (\<lambda>r. \<not> P r) tbl))
         = map mk (group_by_status src)"
proof -
  let ?R = "map mk (group_by_status src)"
  have "map pk ?R = map k (map fst (group_by_status src))"
    by (simp add: pk comp_def)
  moreover have "inj_on k (set (map fst (group_by_status src)))"
    using k by (rule inj_on_subset) simp
  ultimately have d: "distinct (map pk ?R)"
    using group_by_status_distinct[of src] by (simp only: distinct_map)
  have "filter P (fold (insert_or_replace pk) ?R (filter (\<lambda>r. \<not> P r) tbl))
        = fold (insert_or_replace pk) ?R (filter P (filter (\<lambda>r. \<not> P r) tbl))"
    by (rule filter_fold_move) (simp add: P)
  also have "filter P (filter (\<lambda>r. \<not> P r) tbl) = []" by (simp add: filter_empty_conv)
  also have "fold (insert_or_replace pk) ?R [] = [] @ ?R"
    by (rule fold_insert_or_replace_fresh[OF d]) simp
  finally show ?thesis by simp
qed

lemma rollup_rows_status:
  assumes P: "\<And>p. P (mk p)" and pk: "\<And>p. pk (mk p) = k (fst p)" and k: "inj k"
    and st: "\<And>p. status (mk p) = fst p"
  shows "filter (\<lambda>r. P r \<and> status r = st)
           (fold (insert_or_replace pk) (map mk (group_by_status src))
              (filter (\<lambda>r. \<not> P r) tbl))
         = (if st \<in> status ` set src then [mk (st, filter (\<lambda>r. status r = st) src)] else [])"
proof -
  let ?T = "fold (insert_or_replace pk) (map mk (group_by_status src)) (filter (\<lambda>r. \<not> P r) tbl)"
  have "filter (\<lambda>r. P r \<and> status r = st) ?T = filter (\<lambda>r. status r = st) (filter P ?T)"
    by (simp add: conj_commute)
  also have "\<dots> = filter (\<lambda>r. status r = st) (map mk (group_by_status src))"
    by (simp only: rollup_rows[of P mk pk k, OF P pk k])
  also have "\<dots> = map mk (filter (\<lambda>p. fst p = st) (group_by_status src))"
    by (simp add: filter_map comp_def st)
  finally show ?thesis by (simp add: group_by_status_filter)
qed

lemma rollup_on_bare:
  assumes "on_bare tbl" and "\<And>g. bare (mk (''ON'', g))" and st: "\<And>p. status (mk p) = fst p"
  shows "on_bare (fold (insert_or_replace pk) (map mk (group_by_status src)) (filter Q tbl))"
  unfolding on_bare_def
proof (intro ballI impI)
  fix r
  assume r: "r \<in> set (fold (insert_or_replace pk) (map mk (group_by_status src)) (filter Q tbl))"
    and on: "status r = ''ON''"
  from r set_fold_insert_or_replace[of pk "map mk (group_by_status src)" "filter Q tbl"]
  have "r \<in> set (map mk (group_by_status src)) \<or> r \<in> set tbl" by auto
  then show "bare r"
  proof
    assume "r \<in> set (map mk (group_by_status src))"
    then obtain p where p: "r = mk p" by auto
    with on st[of p] have "fst p = ''ON''" by simp
    then have "p = (''ON'', snd p)" by (cases p) simp
    with p assms(2)[of "snd p"] show ?thesis by simp
  next
    assume "r \<in> set tbl"
    with on assms(1) show ?thesis by (simp add: on_bare_def)
  qed
qed

lemma on_bare_sum_zero:
  assumes "on_bare tbl"
  shows "sum_list (map total_time_s (filter (\<lambda>r. Q r \<and> status r = ''ON'') tbl)) = 0"
  using assms
  by (induction tbl) (auto simp add: on_bare_def bare_def)


lemma rollup_duration:
  assumes P: "\<And>p. P (mk p)" and pk: "\<And>p. pk (mk p) = k (fst p)" and k: "inj k"
    and st: "\<And>p. status (mk p) = fst p"
    and tt: "\<And>s g. total_time_s (mk (s, g)) = (if s = ''ON'' then 0 else sum_list (map total_time_s g))"
    and bare: "on_bare src"
  shows "map total_time_s
           (filter (\<lambda>r. P r \<and> status r = st)
              (fold (insert_or_replace pk) (map mk (group_by_status (filter Q src)))
                 (filter (\<lambda>r. \<not> P r) tbl)))
         = (if filter (\<lambda>r. Q r \<and> status r = st) src = [] then []
            else [sum_list (map total_time_s (filter (\<lambda>r. Q r \<and> status r = st) src))])"
proof -
  have f: "filter (\<lambda>r. status r = st) (filter Q src) = filter (\<lambda>r. Q r \<and> status r = st) src"
    by simp
  have e: "(st \<in> status ` set (filter Q src)) = (filter (\<lambda>r. Q r \<and> status r = st) src \<noteq> [])"
    by (auto simp add: filter_empty_conv)
  have z: "sum_list (map total_time_s (filter (\<lambda>r. Q r \<and> status r = ''ON'') src)) = 0"
    using bare by (rule on_bare_sum_zero)
  show ?thesis
    unfolding rollup_rows_status[of P mk pk k, OF P pk k st] f e
    using z by (simp add: tt)
qed

lemma update_month_on_bare:
  "on_bare tbl \<Longrightarrow> on_bare (update_month y m dd src tbl)"
  unfolding update_month_def
proof (rule rollup_on_bare)
  show "bare (month_row_of y m dd (''ON'', g))" for g by (rule row_of_bare)
  show "status (month_row_of y m dd p) = fst p" for p by (cases p) simp
qed

lemma update_year_on_bare:
  "on_bare tbl \<Longrightarrow> on_bare (update_year y m src tbl)"
  unfolding update_year_def
proof (rule rollup_on_bare)
  show "bare (year_row_of y m (''ON'', g))" for g by (rule row_of_bare)
  show "status (year_row_of y m p) = fst p" for p by (cases p) simp
qed

lemma update_total_on_bare:
  "on_bare tbl \<Longrightarrow> on_bare (update_total y src tbl)"
  unfolding update_total_def
proof (rule rollup_on_bare)
  show "bare (total_row_of y (''ON'', g))" for g by (rule row_of_bare)
  show "status (total_row_of y p) = fst p" for p by (cases p) simp
qed


lemma update_year_duration:
  assumes "on_bare M"
  shows "map total_time_s (filter (\<lambda>r. (year r = y \<and> month r = m) \<and> status r = st)
           (update_year y m M tbl))
     = (if filter (\<lambda>r. (year r = y \<and> month r = m) \<and> status r = st) M = [] then []
        else [sum_list (map total_time_s
                (filter (\<lambda>r. (year r = y \<and> month r = m) \<and> status r = st) M))])"
  unfolding update_year_def
proof (rule rollup_duration[where k = "\<lambda>s. (y, m, s)"])
  show "year (year_row_of y m p) = y \<and> month (year_row_of y m p) = m" for p
    by (cases p) simp
  show "year_pk (year_row_of y m p) = (y, m, fst p)" for p
    by (cases p) (simp add: year_pk_def)
  show "inj (\<lambda>s::string. (y, m, s))" by (simp add: inj_on_def)
  show "status (year_row_of y m p) = fst p" for p by (cases p) simp
  show "total_time_s (year_row_of y m (s, g))
        = (if s = ''ON'' then 0 else sum_list (map total_time_s g))" for s g
    by simp
  show "on_bare M" by (rule assms)
qed


lemma update_total_duration:
  assumes "on_bare Y"
  shows "map total_time_s (filter (\<lambda>r. year r = y \<and> status r = st) (update_total y Y tbl))
     = (if filter (\<lambda>r. year r = y \<and> status r = st) Y = [] then []
        else [sum_list (map total_time_s (filter (\<lambda>r. year r = y \<and> status r = st) Y))])"
  unfolding update_total_def
proof (rule rollup_duration[where k = "\<lambda>s. (y, s)"])
  show "year (total_row_of y p) = y" for p by (cases p) simp
  show "total_pk (total_row_of y p) = (y, fst p)" for p
    by (cases p) (simp add: total_pk_def)
  show "inj (\<lambda>s::string. (y, s))" by (simp add: inj_on_def)
  show "status (total_row_of y p) = fst p" for p by (cases p) simp
  show "total_time_s (total_row_of y (s, g))
        = (if s = ''ON'' then 0 else sum_list (map total_time_s g))" for s g
    by simp
  show "on_bare Y" by (rule assms)
qed

lemma update_tables:
  "month_summary (update_month_year_total_for_day cal dl d)
     = update_month (year_of cal dl) (month_of cal dl) (day_of cal dl)
         (filter (\<lambda>r. day_date r = dl) (day_summary d)) (month_summary d)"
  "year_summary (update_month_year_total_for_day cal dl d)
     = update_year (year_of cal dl) (month_of cal dl)
         (month_summary (update_month_year_total_for_day cal dl d)) (year_summary d)"
  "total_summary (update_month_year_total_for_day cal dl d)
     = update_total (year_of cal dl)
         (year_summary (update_month_year_total_for_day cal dl d)) (total_summary d)"
  by (simp_all add: update_month_year_total_for_day_def Let_def)


lemma update_month_frame:
  assumes "y' \<noteq> y \<or> m' \<noteq> m"
  shows "filter (\<lambda>r. (year r = y' \<and> month r = m') \<and> status r = st) (update_month y m dd src tbl)
         = filter (\<lambda>r. (year r = y' \<and> month r = m') \<and> status r = st) tbl"
proof -
  let ?Q = "\<lambda>r::month_row. (year r = y' \<and> month r = m') \<and> status r = st"
  let ?R = "map (month_row_of y m dd) (group_by_status src)"
  have r: "year r = y \<and> month r = m" if "r \<in> set ?R" for r
    using that by auto
  have "filter ?Q (update_month y m dd src tbl)
        = filter ?Q (filter (\<lambda>r. \<not> (year r = y \<and> month r = m \<and> day r = dd)) tbl)"
    unfolding update_month_def
  proof (rule filter_fold_keep)
    show "\<forall>r \<in> set ?R. \<not> ?Q r" using r assms by blast
    show "\<forall>r \<in> set ?R. \<forall>x. ?Q x \<longrightarrow> month_pk x \<noteq> month_pk r"
      using r assms by (auto simp add: month_pk_def)
  qed
  also have "\<dots> = filter ?Q tbl"
    using assms by (auto intro: filter_cong)
  finally show ?thesis .
qed

lemma update_year_frame:
  assumes "y' \<noteq> y \<or> m' \<noteq> m"
  shows "filter (\<lambda>r. (year r = y' \<and> month r = m') \<and> status r = st) (update_year y m src tbl)
         = filter (\<lambda>r. (year r = y' \<and> month r = m') \<and> status r = st) tbl"
proof -
  let ?Q = "\<lambda>r::year_row. (year r = y' \<and> month r = m') \<and> status r = st"
  let ?R = "map (year_row_of y m) (group_by_status (filter (\<lambda>r. year r = y \<and> month r = m) src))"
  have r: "year r = y \<and> month r = m" if "r \<in> set ?R" for r
    using that by auto
  have "filter ?Q (update_year y m src tbl)
        = filter ?Q (filter (\<lambda>r. \<not> (year r = y \<and> month r = m)) tbl)"
    unfolding update_year_def
  proof (rule filter_fold_keep)
    show "\<forall>r \<in> set ?R. \<not> ?Q r" using r assms by blast
    show "\<forall>r \<in> set ?R. \<forall>x. ?Q x \<longrightarrow> year_pk x \<noteq> year_pk r"
      using r assms by (auto simp add: year_pk_def)
  qed
  also have "\<dots> = filter ?Q tbl"
    using assms by (auto intro: filter_cong)
  finally show ?thesis .
qed

lemma update_year_frame_year:
  assumes "y' \<noteq> y"
  shows "filter (\<lambda>r. year r = y' \<and> status r = st) (update_year y m src tbl)
         = filter (\<lambda>r. year r = y' \<and> status r = st) tbl"
proof -
  let ?Q = "\<lambda>r::year_row. year r = y' \<and> status r = st"
  let ?R = "map (year_row_of y m) (group_by_status (filter (\<lambda>r. year r = y \<and> month r = m) src))"
  have r: "year r = y" if "r \<in> set ?R" for r
    using that by auto
  have "filter ?Q (update_year y m src tbl)
        = filter ?Q (filter (\<lambda>r. \<not> (year r = y \<and> month r = m)) tbl)"
    unfolding update_year_def
  proof (rule filter_fold_keep)
    show "\<forall>r \<in> set ?R. \<not> ?Q r" using r assms by blast
    show "\<forall>r \<in> set ?R. \<forall>x. ?Q x \<longrightarrow> year_pk x \<noteq> year_pk r"
      using r assms by (auto simp add: year_pk_def)
  qed
  also have "\<dots> = filter ?Q tbl"
    using assms by (auto intro: filter_cong)
  finally show ?thesis .
qed

lemma update_total_frame:
  assumes "y' \<noteq> y"
  shows "filter (\<lambda>r. year r = y' \<and> status r = st) (update_total y src tbl)
         = filter (\<lambda>r. year r = y' \<and> status r = st) tbl"
proof -
  let ?Q = "\<lambda>r::total_row. year r = y' \<and> status r = st"
  let ?R = "map (total_row_of y) (group_by_status (filter (\<lambda>r. year r = y) src))"
  have r: "year r = y" if "r \<in> set ?R" for r
    using that by auto
  have "filter ?Q (update_total y src tbl) = filter ?Q (filter (\<lambda>r. year r \<noteq> y) tbl)"
    unfolding update_total_def
  proof (rule filter_fold_keep)
    show "\<forall>r \<in> set ?R. \<not> ?Q r" using r assms by blast
    show "\<forall>r \<in> set ?R. \<forall>x. ?Q x \<longrightarrow> total_pk x \<noteq> total_pk r"
      using r assms by (auto simp add: total_pk_def)
  qed
  also have "\<dots> = filter ?Q tbl"
    using assms by (auto intro: filter_cong)
  finally show ?thesis .
qed


text \<open>
  Claim C7. The \<^verbatim>\<open>"ON"\<close> rows of the month, year and total tables carry no duration,
  energy or average, only a count: so it is in the empty tables, and the roll-up of a day
  keeps it so. Where it is so, after the roll-up of a day, for every status: the
  durations of the month table's rows of the day's year and month sum to the duration of
  the one row of the year table for that year and month, and the durations of the year
  table's rows of that year sum to the duration of the one row of the total table; for
  any other month or year the rows are as before, and so is the agreement of their sums.
\<close>

theorem rollup_durations_consistent:
  "(on_bare (month_summary empty_db) \<and> on_bare (year_summary empty_db)
      \<and> on_bare (total_summary empty_db))
   \<and> (on_bare (month_summary d) \<and> on_bare (year_summary d) \<and> on_bare (total_summary d) \<longrightarrow>
     year_month_consistent (update_month_year_total_for_day cal dl d)
       (year_of cal dl) (month_of cal dl) st
     \<and> ((y' \<noteq> year_of cal dl \<or> m' \<noteq> month_of cal dl) \<and> year_month_consistent d y' m' st
          \<longrightarrow> year_month_consistent (update_month_year_total_for_day cal dl d) y' m' st)
     \<and> total_year_consistent (update_month_year_total_for_day cal dl d) (year_of cal dl) st
     \<and> (y' \<noteq> year_of cal dl \<and> total_year_consistent d y' st
          \<longrightarrow> total_year_consistent (update_month_year_total_for_day cal dl d) y' st)
     \<and> on_bare (month_summary (update_month_year_total_for_day cal dl d))
     \<and> on_bare (year_summary (update_month_year_total_for_day cal dl d))
     \<and> on_bare (total_summary (update_month_year_total_for_day cal dl d)))"
proof (rule conjI, goal_cases)
  case 1
  show ?case by (simp add: empty_db_def on_bare_def)
next
  case 2
  show ?case
  proof
  assume a: "on_bare (month_summary d) \<and> on_bare (year_summary d) \<and> on_bare (total_summary d)"
  let ?d = "update_month_year_total_for_day cal dl d"
  let ?y = "year_of cal dl" and ?m = "month_of cal dl"
  have bM: "on_bare (month_summary ?d)"
    unfolding update_tables(1) using a by (intro update_month_on_bare) simp
  have bY: "on_bare (year_summary ?d)"
    unfolding update_tables(2) using a by (intro update_year_on_bare) simp
  have bT: "on_bare (total_summary ?d)"
    unfolding update_tables(3) using a by (intro update_total_on_bare) simp
  have c1: "year_month_consistent ?d ?y ?m st"
    unfolding year_month_consistent_def
    by (subst update_tables(2)) (rule update_year_duration[OF bM])
  have c2: "year_month_consistent ?d y' m' st"
    if h: "y' \<noteq> ?y \<or> m' \<noteq> ?m" and c: "year_month_consistent d y' m' st"
  proof -
    have m: "filter (\<lambda>r. (year r = y' \<and> month r = m') \<and> status r = st) (month_summary ?d)
             = filter (\<lambda>r. (year r = y' \<and> month r = m') \<and> status r = st) (month_summary d)"
      unfolding update_tables(1) by (rule update_month_frame[OF h])
    have y: "filter (\<lambda>r. (year r = y' \<and> month r = m') \<and> status r = st) (year_summary ?d)
             = filter (\<lambda>r. (year r = y' \<and> month r = m') \<and> status r = st) (year_summary d)"
      by (subst update_tables(2)) (rule update_year_frame[OF h])
    show ?thesis
      using c unfolding year_month_consistent_def m y .
  qed
  have c3: "total_year_consistent ?d ?y st"
    unfolding total_year_consistent_def
    by (subst update_tables(3)) (rule update_total_duration[OF bY])
  have c4: "total_year_consistent ?d y' st"
    if h: "y' \<noteq> ?y" and c: "total_year_consistent d y' st"
  proof -
    have y: "filter (\<lambda>r. year r = y' \<and> status r = st) (year_summary ?d)
             = filter (\<lambda>r. year r = y' \<and> status r = st) (year_summary d)"
      by (subst update_tables(2)) (rule update_year_frame_year[OF h])
    have t: "filter (\<lambda>r. year r = y' \<and> status r = st) (total_summary ?d)
             = filter (\<lambda>r. year r = y' \<and> status r = st) (total_summary d)"
      by (subst update_tables(3)) (rule update_total_frame[OF h])
    show ?thesis
      using c unfolding total_year_consistent_def y t .
  qed
  from c1 c2 c3 c4 bM bY bT
  show "year_month_consistent ?d ?y ?m st
     \<and> ((y' \<noteq> ?y \<or> m' \<noteq> ?m) \<and> year_month_consistent d y' m' st
          \<longrightarrow> year_month_consistent ?d y' m' st)
     \<and> total_year_consistent ?d ?y st
     \<and> (y' \<noteq> ?y \<and> total_year_consistent d y' st \<longrightarrow> total_year_consistent ?d y' st)
     \<and> on_bare (month_summary ?d) \<and> on_bare (year_summary ?d) \<and> on_bare (total_summary ?d)"
    by blast
  qed
qed

text \<open>
  In \<open>two_day_db\<close> the roll-up of the second day leaves the month table with the rows
  of both days; the standby durations 300 and 100 of the two days sum to the 400 of the
  year row and of the total row, and the two \<^verbatim>\<open>"ON"\<close> rows, of duration 0, to the 0
  of theirs. February has no rows before or after.
\<close>

theorem rollup_durations_witness:
  "on_bare (month_summary two_day_db) \<and> on_bare (year_summary two_day_db)
   \<and> on_bare (total_summary two_day_db)
   \<and> year_of eet 1 = 1970 \<and> month_of eet 1 = 1
   \<and> map (\<lambda>r. (day r, status r, total_time_s r, times_a_day r))
        (month_summary (update_month_year_total_for_day eet 1 two_day_db))
      = [(1, ''ON'', 0, 1), (1, ''S'', 300, 1), (1, ''H'', 10, 1),
         (2, ''ON'', 0, 1), (2, ''S'', 100, 1)]
   \<and> year_month_consistent (update_month_year_total_for_day eet 1 two_day_db) 1970 1 ''S''
   \<and> map (\<lambda>r. (status r, total_time_s r, times_a_month r))
        (year_summary (update_month_year_total_for_day eet 1 two_day_db))
      = [(''H'', 10, 1), (''ON'', 0, 2), (''S'', 400, 2)]
   \<and> total_year_consistent (update_month_year_total_for_day eet 1 two_day_db) 1970 ''S''
   \<and> map (\<lambda>r. (status r, total_time_s r, times_a_year r))
        (total_summary (update_month_year_total_for_day eet 1 two_day_db))
      = [(''H'', 10, 1), (''ON'', 0, 2), (''S'', 400, 2)]
   \<and> year_month_consistent two_day_db 1970 2 ''S''
   \<and> year_month_consistent (update_month_year_total_for_day eet 1 two_day_db) 1970 2 ''S''
   \<and> on_bare (month_summary (update_month_year_total_for_day eet 1 two_day_db))
   \<and> on_bare (year_summary (update_month_year_total_for_day eet 1 two_day_db))
   \<and> on_bare (total_summary (update_month_year_total_for_day eet 1 two_day_db))"
proof -
  let ?d = "update_month_year_total_for_day eet 1 two_day_db"
  have b: "on_bare (month_summary two_day_db)" "on_bare (year_summary two_day_db)"
    "on_bare (total_summary two_day_db)"
    by code_simp+
  have c: "year_of eet 1 = 1970" "month_of eet 1 = 1"
    by code_simp+
  have o: "year_month_consistent two_day_db 1970 2 ''S''"
    by code_simp
  have m: "map (\<lambda>r. (day r, status r, total_time_s r, times_a_day r)) (month_summary ?d)
      = [(1, ''ON'', 0, 1), (1, ''S'', 300, 1), (1, ''H'', 10, 1),
         (2, ''ON'', 0, 1), (2, ''S'', 100, 1)]"
    by code_simp
  have y: "map (\<lambda>r. (status r, total_time_s r, times_a_month r)) (year_summary ?d)
      = [(''H'', 10, 1), (''ON'', 0, 2), (''S'', 400, 2)]"
    by code_simp
  have t: "map (\<lambda>r. (status r, total_time_s r, times_a_year r)) (total_summary ?d)
      = [(''H'', 10, 1), (''ON'', 0, 2), (''S'', 400, 2)]"
    by code_simp
  have n: "(1970::int) \<noteq> year_of eet 1 \<or> (2::int) \<noteq> month_of eet 1"
    unfolding c by simp
  from rollup_durations_consistent [of two_day_db eet 1 "''S''" 1970 2] b n o
  have r: "year_month_consistent ?d (year_of eet 1) (month_of eet 1) ''S''"
    "total_year_consistent ?d (year_of eet 1) ''S''"
    "year_month_consistent ?d 1970 2 ''S''"
    "on_bare (month_summary ?d)" "on_bare (year_summary ?d)" "on_bare (total_summary ?d)"
    by blast+
  from r(1) have r1: "year_month_consistent ?d 1970 1 ''S''"
    unfolding c .
  from r(2) have r2: "total_year_consistent ?d 1970 ''S''"
    unfolding c .
  from b c m y t o r1 r2 r(3) r(4) r(5) r(6) show ?thesis
    by blast
qed

end
